theory Spec2Isabelle
  imports
    Main
    "HOL-Library.Sublist"
    "HOL-Library.Char_ord"
    "HOL-Library.List_Lexorder"
    "HOL-Library.AList"
    "HOL-Library.Multiset"
begin

section \<open>The generate-protos command of protobuf-go\<close>

text \<open>
  The development embeds \<^verbatim>\<open>internal/cmd/generate-protos/main.go\<close>: the plugin-mode
  dispatch of \<^verbatim>\<open>init\<close>, the extractor \<^verbatim>\<open>generateFieldNumbers\<close>, the two batch
  generators, and \<^verbatim>\<open>syncOutput\<close> with \<^verbatim>\<open>copyFile\<close>.

  The process runs single-threaded on one file system. Paths are Go strings, modelled as
  \<^typ>\<open>string\<close>; the file system is an association list from paths to nodes; a panic
  raised by \<^verbatim>\<open>check\<close> is the value \<open>Some e\<close> in the first component of a result,
  paired with the state the process had reached when it panicked.
\<close>

subsection \<open>Strings (package strings)\<close>

definition strings_HasSuffix :: "string \<Rightarrow> string \<Rightarrow> bool" where
  "strings_HasSuffix s suf = suffix suf s"

definition strings_HasPrefix :: "string \<Rightarrow> string \<Rightarrow> bool" where
  "strings_HasPrefix s pre = prefix pre s"

definition strings_TrimSuffix :: "string \<Rightarrow> string \<Rightarrow> string" where
  "strings_TrimSuffix s suf =
     (if strings_HasSuffix s suf then take (length s - length suf) s else s)"

text \<open>\<^verbatim>\<open>strings.Join(elems, sep)\<close>.\<close>

fun strings_Join :: "string list \<Rightarrow> string \<Rightarrow> string" where
  "strings_Join [] sep = []"
| "strings_Join [x] sep = x"
| "strings_Join (x # y # ys) sep = x @ sep @ strings_Join (y # ys) sep"

text \<open>
  \<^verbatim>\<open>strings.Split(s, sep)\<close> for a separator of one byte: the pieces between the
  separators, so that a string without separator (the empty one too) gives one piece.
\<close>

fun splitOn :: "char \<Rightarrow> string \<Rightarrow> string \<Rightarrow> string list" where
  "splitOn c acc [] = [acc]"
| "splitOn c acc (x # xs) =
     (if x = c then acc # splitOn c [] xs else splitOn c (acc @ [x]) xs)"

definition strings_Split :: "string \<Rightarrow> char \<Rightarrow> string list" where
  "strings_Split s c = splitOn c [] s"

definition isSpace :: "char \<Rightarrow> bool" where
  "isSpace c = (c \<in> set [CHR '' '', CHR 0x09, CHR 0x0A, CHR 0x0B, CHR 0x0C, CHR 0x0D])"

definition strings_TrimSpace :: "string \<Rightarrow> string" where
  "strings_TrimSpace s = rev (dropWhile isSpace (rev (dropWhile isSpace s)))"

subsection \<open>Paths (packages path and path/filepath, on a slash-separated system)\<close>

text \<open>
  The definitions below are those of the Go library on clean paths, where
  \<^verbatim>\<open>filepath.Clean\<close>, \<^verbatim>\<open>filepath.FromSlash\<close> and \<^verbatim>\<open>filepath.ToSlash\<close> return
  their argument: no empty, \<^verbatim>\<open>.\<close> or \<^verbatim>\<open>..\<close> component and no trailing slash.
\<close>

definition slash :: char where
  "slash = CHR ''/''"

definition filepath_FromSlash :: "string \<Rightarrow> string" where
  "filepath_FromSlash p = p"

definition filepath_ToSlash :: "string \<Rightarrow> string" where
  "filepath_ToSlash p = p"

text \<open>\<^verbatim>\<open>filepath.Join(a, b)\<close>: empty elements are ignored, and a final \<^verbatim>\<open>.\<close> is cleaned away.\<close>

definition filepath_Join :: "string \<Rightarrow> string \<Rightarrow> string" where
  "filepath_Join a b =
     (if b = [] \<or> b = ''.'' then a
      else if a = [] then b
      else a @ [slash] @ b)"

text \<open>\<^verbatim>\<open>path.Join(a, b, c)\<close>, as \<^verbatim>\<open>generateLocalProtos\<close> calls it.\<close>

definition path_Join3 :: "string \<Rightarrow> string \<Rightarrow> string \<Rightarrow> string" where
  "path_Join3 a b c = filepath_Join (filepath_Join a b) c"

text \<open>
  \<^verbatim>\<open>filepath.Dir(p)\<close>: all but the last element of the path, \<^verbatim>\<open>.\<close> when the path has
  no slash, and the root for a path directly under the root.
\<close>

definition filepath_Dir :: "string \<Rightarrow> string" where
  "filepath_Dir p =
     (let d = rev (dropWhile (\<lambda>c. c \<noteq> slash) (rev p))
      in if d = [] then ''.'' else if d = [slash] then d else butlast d)"

text \<open>\<^verbatim>\<open>filepath.Base(p)\<close> and \<^verbatim>\<open>path.Base(p)\<close>: the last element of the path.\<close>

definition filepath_Base :: "string \<Rightarrow> string" where
  "filepath_Base p =
     (if p = [] then ''.''
      else let b = rev (takeWhile (\<lambda>c. c \<noteq> slash) (rev p))
           in if b = [] then [slash] else b)"

text \<open>A path lies under a directory when it is the directory itself or continues it after a slash.\<close>

definition isUnder :: "string \<Rightarrow> string \<Rightarrow> bool" where
  "isUnder root p = (p = root \<or> prefix (root @ [slash]) p)"

subsection \<open>Panics\<close>

datatype error =
    ReadError string
  | MkdirError string
  | WriteError string
  | TempDirError string
  | RelError string string
  | ExecError string
  | FormatError
  | ConfigError string

text \<open>
  \<^verbatim>\<open>filepath.Rel(base, target)\<close> for a target that is the base or lies under it, which is
  all that \<^verbatim>\<open>filepath.Walk(base, ...)\<close> yields. For any other target Go answers with a
  path through \<^verbatim>\<open>..\<close> or with an error; the model gives the error.
\<close>

definition filepath_Rel :: "string \<Rightarrow> string \<Rightarrow> error + string" where
  "filepath_Rel base target =
     (if target = base then Inr ''.''
      else if prefix (base @ [slash]) target then Inr (drop (length base + 1) target)
      else Inl (RelError base target))"

subsection \<open>The file system\<close>

datatype node = File string | Dir

type_synonym fs = "(string \<times> node) list"

text \<open>The directories that must exist above a path, outermost first (the root always exists).\<close>

fun dirPrefixes :: "string \<Rightarrow> string \<Rightarrow> string list" where
  "dirPrefixes acc [] = []"
| "dirPrefixes acc (c # cs) =
     (if c = slash \<and> acc \<noteq> [] then [acc] else []) @ dirPrefixes (acc @ [c]) cs"

definition dirExists :: "fs \<Rightarrow> string \<Rightarrow> bool" where
  "dirExists fs p = (p = ''.'' \<or> p = [slash] \<or> map_of fs p = Some Dir)"

text \<open>\<^verbatim>\<open>ioutil.ReadFile\<close>: the content of a regular file, an error for anything else.\<close>

definition ReadFile :: "string \<Rightarrow> fs \<Rightarrow> error + string" where
  "ReadFile p fs = (case map_of fs p of Some (File b) \<Rightarrow> Inr b | _ \<Rightarrow> Inl (ReadError p))"

text \<open>
  \<^verbatim>\<open>os.MkdirAll\<close>: creates the directory and every missing parent; fails, creating
  nothing, when one of them exists as a regular file.
\<close>

fun mkdirs :: "string list \<Rightarrow> fs \<Rightarrow> error + fs" where
  "mkdirs [] fs = Inr fs"
| "mkdirs (q # qs) fs =
     (case map_of fs q of
        Some (File b) \<Rightarrow> Inl (MkdirError q)
      | Some Dir \<Rightarrow> mkdirs qs fs
      | None \<Rightarrow> mkdirs qs (fs @ [(q, Dir)]))"

definition MkdirAll :: "string \<Rightarrow> fs \<Rightarrow> error + fs" where
  "MkdirAll p fs =
     (if p = ''.'' \<or> p = [slash] then Inr fs else mkdirs (dirPrefixes [] p @ [p]) fs)"

text \<open>
  \<^verbatim>\<open>ioutil.WriteFile\<close>: creates or truncates the file; fails when the parent directory is
  missing or the path is a directory.
\<close>

definition WriteFile :: "string \<Rightarrow> string \<Rightarrow> fs \<Rightarrow> error + fs" where
  "WriteFile p b fs =
     (if \<not> dirExists fs (filepath_Dir p) \<or> dirExists fs p then Inl (WriteError p)
      else Inr (AList.update p (File b) fs))"

text \<open>\<^verbatim>\<open>os.RemoveAll\<close>: removes the path and everything under it.\<close>

definition RemoveAll :: "string \<Rightarrow> fs \<Rightarrow> fs" where
  "RemoveAll p fs = filter (\<lambda>(q, n). \<not> isUnder p q) fs"

text \<open>
  \<^verbatim>\<open>filepath.Walk(root, fn)\<close> calls \<open>fn\<close> on the root and on everything under it, a
  directory before its entries and the entries of one directory in the order of their
  names: the lexicographic order of the lists of path elements. A root that does not exist
  is still passed to \<open>fn\<close>, with an error that both callbacks of this program ignore.
  The paths are listed when the walk starts.
\<close>

definition Walk :: "string \<Rightarrow> fs \<Rightarrow> string list" where
  "Walk root fs =
     (if map_of fs root = None then [root]
      else sort_key (\<lambda>p. strings_Split p slash) (remdups (filter (isUnder root) (map fst fs))))"

subsection \<open>The state of a run\<close>

text \<open>
  The package variables \<^verbatim>\<open>run\<close>, \<^verbatim>\<open>protoRoot\<close>, \<^verbatim>\<open>repoRoot\<close> and \<^verbatim>\<open>modulePath\<close>,
  with what the run takes from outside: its own executable name, the \<^verbatim>\<open>protoc\<close> and
  \<^verbatim>\<open>diff\<close> programs, \<^verbatim>\<open>format.Source\<close>, the random names \<^verbatim>\<open>ioutil.TempDir\<close> tries,
  and the orders in which Go ranges over the two maps of the program.
\<close>

record env =
  run :: bool
  protoRoot :: string
  repoRoot :: string
  modulePath :: string
  selfExe :: string
  toolchain :: "string \<Rightarrow> string list \<Rightarrow> fs \<Rightarrow> string option \<times> fs"
  diffTool :: "string \<Rightarrow> string \<Rightarrow> fs \<Rightarrow> string list"
  formatSource :: "string \<Rightarrow> string option"
  tempNames :: "string list"
  rangeSubDirs :: "string list \<Rightarrow> string list"
  rangePackages :: "(string \<times> string) list \<Rightarrow> (string \<times> string) list"

record world =
  files :: fs
  stdout :: "string list"
  calls :: "(string \<times> string list) list"

text \<open>A loop whose body may panic: the first panic ends it, with the state reached.\<close>

fun forEach :: "('a \<Rightarrow> 's \<Rightarrow> error option \<times> 's) \<Rightarrow> 'a list \<Rightarrow> 's \<Rightarrow> error option \<times> 's" where
  "forEach f [] s = (None, s)"
| "forEach f (x # xs) s =
     (case f x s of
        (Some e, s') \<Rightarrow> (Some e, s')
      | (None, s') \<Rightarrow> forEach f xs s')"

subsection \<open>copyFile and syncOutput\<close>

definition copyFile :: "string \<Rightarrow> string \<Rightarrow> world \<Rightarrow> error option \<times> world" where
  "copyFile dstPath srcPath w =
     (case ReadFile srcPath (files w) of
        Inl e \<Rightarrow> (Some e, w)
      | Inr b \<Rightarrow>
          (case MkdirAll (filepath_Dir dstPath) (files w) of
             Inl e \<Rightarrow> (Some e, w)
           | Inr fs1 \<Rightarrow>
               (case WriteFile dstPath b fs1 of
                  Inl e \<Rightarrow> (Some e, w\<lparr>files := fs1\<rparr>)
                | Inr fs2 \<Rightarrow> (None, w\<lparr>files := fs2\<rparr>))))"

text \<open>The callback that \<^verbatim>\<open>syncOutput\<close> passes to \<^verbatim>\<open>filepath.Walk\<close>.\<close>

definition syncStep :: "env \<Rightarrow> string \<Rightarrow> string \<Rightarrow> string \<Rightarrow> world \<Rightarrow> error option \<times> world" where
  "syncStep E dstDir srcDir srcPath w =
     (if \<not> strings_HasSuffix srcPath ''.go'' \<and> \<not> strings_HasSuffix srcPath ''.meta''
      then (None, w)
      else
        (case filepath_Rel srcDir srcPath of
           Inl e \<Rightarrow> (Some e, w)
         | Inr relPath \<Rightarrow>
             (let dstPath = filepath_Join dstDir relPath in
              if run E
              then copyFile dstPath srcPath (w\<lparr>stdout := stdout w @ [''# '' @ relPath]\<rparr>)
              else (None, w\<lparr>stdout := stdout w @ diffTool E dstPath srcPath (files w)\<rparr>))))"

definition syncOutput :: "env \<Rightarrow> string \<Rightarrow> string \<Rightarrow> world \<Rightarrow> error option \<times> world" where
  "syncOutput E dstDir srcDir w =
     forEach (syncStep E dstDir srcDir) (Walk srcDir (files w)) w"

subsection \<open>The package-override table and the toolchain\<close>

definition protoPackages :: "(string \<times> string) list" where
  "protoPackages =
     [(''google/protobuf/field_mask.proto'', ''google.golang.org/protobuf/internal/testprotos/fieldmaskpb''),
      (''google/protobuf/any.proto'', ''google.golang.org/protobuf/types/known/anypb''),
      (''google/protobuf/duration.proto'', ''google.golang.org/protobuf/types/known/durationpb''),
      (''google/protobuf/empty.proto'', ''google.golang.org/protobuf/types/known/emptypb''),
      (''google/protobuf/struct.proto'', ''google.golang.org/protobuf/types/known/structpb''),
      (''google/protobuf/timestamp.proto'', ''google.golang.org/protobuf/types/known/timestamppb''),
      (''google/protobuf/wrappers.proto'', ''google.golang.org/protobuf/types/known/wrapperspb''),
      (''google/protobuf/descriptor.proto'', ''google.golang.org/protobuf/types/descriptorpb''),
      (''google/protobuf/compiler/plugin.proto'', ''google.golang.org/protobuf/types/pluginpb''),
      (''conformance/conformance.proto'', ''google.golang.org/protobuf/internal/testprotos/conformance''),
      (''google/protobuf/test_messages_proto2.proto'', ''google.golang.org/protobuf/internal/testprotos/conformance''),
      (''google/protobuf/test_messages_proto3.proto'', ''google.golang.org/protobuf/internal/testprotos/conformance'')]"

definition protoMapOpt :: "env \<Rightarrow> string" where
  "protoMapOpt E =
     strings_Join (map (\<lambda>(k, v). ''M'' @ k @ ''='' @ v) (rangePackages E protoPackages)) '',''"

text \<open>
  \<^verbatim>\<open>protoc(plugins, args...)\<close> runs the compiler with this binary as its plugin and
  \<^verbatim>\<open>RUN_AS_PROTOC_PLUGIN=plugins\<close> in its environment. The run is recorded in
  \<^const>\<open>calls\<close>; a failing run prints the command with its output and panics.
\<close>

definition protoc :: "env \<Rightarrow> string \<Rightarrow> string list \<Rightarrow> world \<Rightarrow> error option \<times> world" where
  "protoc E plugins args w =
     (let cmdArgs = [''protoc'', ''--plugin=protoc-gen-go='' @ selfExe E] @ args;
          w1 = w\<lparr>calls := calls w @ [(plugins, args)]\<rparr>
      in case toolchain E plugins cmdArgs (files w) of
           (Some out, fs') \<Rightarrow>
             (Some (ExecError (strings_Join cmdArgs '' '')),
              w1\<lparr>files := fs',
                 stdout := stdout w @ [''executing: '' @ strings_Join cmdArgs '' '', out]\<rparr>)
         | (None, fs') \<Rightarrow> (None, w1\<lparr>files := fs'\<rparr>))"

definition generatedPreamble :: "string list" where
  "generatedPreamble =
     [''// Copyright 2019 The Go Authors. All rights reserved.'',
      ''// Use of this source code is governed by a BSD-style'',
      ''// license that can be found in the LICENSE file.'',
      [],
      ''// Code generated by generate-protos. DO NOT EDIT.'',
      []]"

subsection \<open>generateLocalProtos\<close>

record genDir =
  path :: string
  grpcPlugin :: bool
  annotateFor :: "(string \<times> bool) list"
  exclude :: "(string \<times> bool) list"

text \<open>Reading a Go \<^verbatim>\<open>map[string]bool\<close>: a missing key reads as false.\<close>

definition mapBool :: "(string \<times> bool) list \<Rightarrow> string \<Rightarrow> bool" where
  "mapBool m k = (case map_of m k of Some b \<Rightarrow> b | None \<Rightarrow> False)"

definition dirs :: "genDir list" where
  "dirs =
     [\<lparr>path = ''cmd/protoc-gen-go/testdata'', grpcPlugin = False,
       annotateFor = [(''cmd/protoc-gen-go/testdata/annotations/annotations.proto'', True)],
       exclude = []\<rparr>,
      \<lparr>path = ''cmd/protoc-gen-go-grpc/testdata'', grpcPlugin = True,
       annotateFor = [], exclude = []\<rparr>,
      \<lparr>path = ''internal/testprotos'', grpcPlugin = False, annotateFor = [],
       exclude = [(''internal/testprotos/irregular/irregular.proto'', True)]\<rparr>]"

text \<open>
  The regular expression \<^verbatim>\<open>legacy/proto[23]_[0-9]{8}_[0-9a-f]{8}/\<close>, and
  \<^verbatim>\<open>MatchString\<close>: a match may start anywhere in the string.
\<close>

definition isDigit :: "char \<Rightarrow> bool" where
  "isDigit c = (c \<in> set ''0123456789'')"

definition isHexLower :: "char \<Rightarrow> bool" where
  "isHexLower c = (c \<in> set ''0123456789abcdef'')"

definition excludeRx_matchAt :: "string \<Rightarrow> bool" where
  "excludeRx_matchAt s =
     (prefix ''legacy/proto'' s \<and>
      (let r = drop 12 s
       in 20 \<le> length r \<and> r ! 0 \<in> set ''23'' \<and> r ! 1 = CHR ''_'' \<and>
          list_all isDigit (take 8 (drop 2 r)) \<and> r ! 10 = CHR ''_'' \<and>
          list_all isHexLower (take 8 (drop 11 r)) \<and> r ! 19 = slash))"

fun excludeRx_MatchString :: "string \<Rightarrow> bool" where
  "excludeRx_MatchString [] = False"
| "excludeRx_MatchString (c # cs) = (excludeRx_matchAt (c # cs) \<or> excludeRx_MatchString cs)"

text \<open>The callback of the walk over one directory; \<open>subDirs\<close> is the set it fills.\<close>

definition localStep ::
  "env \<Rightarrow> genDir \<Rightarrow> string \<Rightarrow> string \<Rightarrow> string \<Rightarrow> string list \<times> world
     \<Rightarrow> error option \<times> (string list \<times> world)" where
  "localStep E d dstDir srcDir srcPath s =
     (case s of (subDirs, w) \<Rightarrow>
        if \<not> strings_HasSuffix srcPath ''.proto'' \<or> excludeRx_MatchString srcPath
        then (None, s)
        else
          (case filepath_Rel (repoRoot E) srcPath of
             Inl e \<Rightarrow> (Some e, s)
           | Inr relPath \<Rightarrow>
               (case filepath_Rel srcDir srcPath of
                  Inl e \<Rightarrow> (Some e, s)
                | Inr srcRelPath \<Rightarrow>
                    (let subDirs' = List.insert (filepath_Dir srcRelPath) subDirs in
                     if mapBool (exclude d) (filepath_ToSlash relPath)
                     then (None, (subDirs', w))
                     else
                       (let opts0 = ''paths=source_relative,'' @ protoMapOpt E;
                            opts = (if mapBool (annotateFor d) (filepath_ToSlash relPath)
                                    then opts0 @ '',annotate_code'' else opts0);
                            plugins = (if grpcPlugin d then ''go'' @ '',gogrpc'' else ''go'')
                        in case protoc E plugins
                                  [''-I'' @ filepath_Join (protoRoot E) ''src'',
                                   ''-I'' @ repoRoot E,
                                   ''--go_out='' @ opts @ '':'' @ dstDir,
                                   relPath] w of
                             (r, w') \<Rightarrow> (r, (subDirs', w')))))))"

text \<open>
  \<^verbatim>\<open>fmt.Sprintf("%q", s)\<close> for a string of printable ASCII characters: the string in
  double quotes, with a backslash before each double quote and backslash.
\<close>

definition go_quote :: "string \<Rightarrow> string" where
  "go_quote s =
     [CHR 0x22] @
     concat (map (\<lambda>c. if c = CHR 0x22 \<or> c = CHR 0x5C then [CHR 0x5C, c] else [c]) s) @
     [CHR 0x22]"

definition importLine :: "env \<Rightarrow> genDir \<Rightarrow> string \<Rightarrow> string" where
  "importLine E d sd = ''_ '' @ go_quote (path_Join3 (modulePath E) (path d) (filepath_ToSlash sd))"

definition newline :: string where
  "newline = [CHR 0x0A]"

text \<open>The import lines of the synthesized test file, after \<^verbatim>\<open>sort.Strings\<close>.\<close>

definition genTestImports :: "env \<Rightarrow> genDir \<Rightarrow> string list \<Rightarrow> string list" where
  "genTestImports E d subDirs = sort (map (importLine E d) (rangeSubDirs E subDirs))"

definition genTestSource :: "env \<Rightarrow> genDir \<Rightarrow> string list \<Rightarrow> string" where
  "genTestSource E d subDirs =
     strings_Join
       (generatedPreamble @
        [''package main'',
         [],
         ''import ('' @ strings_Join (genTestImports E d subDirs) newline @ '')''])
       newline"

definition genTestPath :: "string \<Rightarrow> genDir \<Rightarrow> string" where
  "genTestPath tmpDir d = filepath_Join tmpDir (filepath_FromSlash (path d @ ''/gen_test.go''))"

definition genTest :: "env \<Rightarrow> string \<Rightarrow> genDir \<Rightarrow> string list \<Rightarrow> world \<Rightarrow> error option \<times> world" where
  "genTest E tmpDir d subDirs w =
     (case formatSource E (genTestSource E d subDirs) of
        None \<Rightarrow> (Some FormatError, w)
      | Some b \<Rightarrow>
          (case WriteFile (genTestPath tmpDir d) b (files w) of
             Inl e \<Rightarrow> (Some e, w)
           | Inr fs' \<Rightarrow> (None, w\<lparr>files := fs'\<rparr>)))"

text \<open>The walk of one directory of \<^const>\<open>dirs\<close>, from an empty \<open>subDirs\<close>.\<close>

definition localWalk ::
  "env \<Rightarrow> genDir \<Rightarrow> string \<Rightarrow> world \<Rightarrow> error option \<times> (string list \<times> world)" where
  "localWalk E d dstDir w =
     (let srcDir = filepath_Join (repoRoot E) (filepath_FromSlash (path d))
      in forEach (localStep E d dstDir srcDir) (Walk srcDir (files w)) ([], w))"

text \<open>One iteration of the loop over \<^const>\<open>dirs\<close>.\<close>

definition localJob :: "env \<Rightarrow> string \<Rightarrow> genDir \<Rightarrow> world \<Rightarrow> error option \<times> world" where
  "localJob E tmpDir d w =
     (let dstDir = tmpDir in
      case MkdirAll dstDir (files w) of
        Inl e \<Rightarrow> (Some e, w)
      | Inr fs1 \<Rightarrow>
          (case localWalk E d dstDir (w\<lparr>files := fs1\<rparr>) of
             (Some e, (subDirs, w2)) \<Rightarrow> (Some e, w2)
           | (None, (subDirs, w2)) \<Rightarrow>
               if filepath_Base (path d) = ''testdata''
               then genTest E tmpDir d subDirs w2
               else (None, w2)))"

text \<open>
  \<^verbatim>\<open>ioutil.TempDir(dir, prefix)\<close>: a new directory \<open>dir/prefix<random>\<close>, trying the
  random names until one is free.
\<close>

definition TempDir :: "env \<Rightarrow> string \<Rightarrow> string \<Rightarrow> fs \<Rightarrow> error + (string \<times> fs)" where
  "TempDir E dir pre fs =
     (if \<not> dirExists fs dir then Inl (TempDirError dir)
      else
        (case find (\<lambda>n. map_of fs (filepath_Join dir (pre @ n)) = None) (tempNames E) of
           None \<Rightarrow> Inl (TempDirError dir)
         | Some n \<Rightarrow>
             (let p = filepath_Join dir (pre @ n) in Inr (p, fs @ [(p, Dir)]))))"

text \<open>The body of \<^verbatim>\<open>generateLocalProtos\<close> after the staging directory exists.\<close>

definition localBody :: "env \<Rightarrow> string \<Rightarrow> world \<Rightarrow> error option \<times> world" where
  "localBody E tmpDir w =
     (case forEach (localJob E tmpDir) dirs w of
        (Some e, w') \<Rightarrow> (Some e, w')
      | (None, w') \<Rightarrow> syncOutput E (repoRoot E) tmpDir w')"

text \<open>
  \<^verbatim>\<open>defer os.RemoveAll(tmpDir)\<close> runs when the function returns and when it panics; the
  panic then goes on to the caller.
\<close>

definition generateLocalProtos :: "env \<Rightarrow> world \<Rightarrow> error option \<times> world" where
  "generateLocalProtos E w =
     (case TempDir E (repoRoot E) ''tmp'' (files w) of
        Inl e \<Rightarrow> (Some e, w)
      | Inr (tmpDir, fs1) \<Rightarrow>
          (case localBody E tmpDir (w\<lparr>files := fs1\<rparr>) of
             (r, w') \<Rightarrow> (r, w'\<lparr>files := RemoveAll tmpDir (files w')\<rparr>)))"

subsection \<open>generateRemoteProtos\<close>

definition remoteFiles :: "(string \<times> string) list" where
  "remoteFiles =
     [([], ''conformance/conformance.proto''),
      (''benchmarks'', ''benchmarks.proto''),
      (''benchmarks'', ''datasets/google_message1/proto2/benchmark_message1_proto2.proto''),
      (''benchmarks'', ''datasets/google_message1/proto3/benchmark_message1_proto3.proto''),
      (''benchmarks'', ''datasets/google_message2/benchmark_message2.proto''),
      (''benchmarks'', ''datasets/google_message3/benchmark_message3.proto''),
      (''benchmarks'', ''datasets/google_message3/benchmark_message3_1.proto''),
      (''benchmarks'', ''datasets/google_message3/benchmark_message3_2.proto''),
      (''benchmarks'', ''datasets/google_message3/benchmark_message3_3.proto''),
      (''benchmarks'', ''datasets/google_message3/benchmark_message3_4.proto''),
      (''benchmarks'', ''datasets/google_message3/benchmark_message3_5.proto''),
      (''benchmarks'', ''datasets/google_message3/benchmark_message3_6.proto''),
      (''benchmarks'', ''datasets/google_message3/benchmark_message3_7.proto''),
      (''benchmarks'', ''datasets/google_message3/benchmark_message3_8.proto''),
      (''benchmarks'', ''datasets/google_message4/benchmark_message4.proto''),
      (''benchmarks'', ''datasets/google_message4/benchmark_message4_1.proto''),
      (''benchmarks'', ''datasets/google_message4/benchmark_message4_2.proto''),
      (''benchmarks'', ''datasets/google_message4/benchmark_message4_3.proto''),
      (''src'', ''google/protobuf/any.proto''),
      (''src'', ''google/protobuf/compiler/plugin.proto''),
      (''src'', ''google/protobuf/descriptor.proto''),
      (''src'', ''google/protobuf/duration.proto''),
      (''src'', ''google/protobuf/empty.proto''),
      (''src'', ''google/protobuf/field_mask.proto''),
      (''src'', ''google/protobuf/struct.proto''),
      (''src'', ''google/protobuf/test_messages_proto2.proto''),
      (''src'', ''google/protobuf/test_messages_proto3.proto''),
      (''src'', ''google/protobuf/timestamp.proto''),
      (''src'', ''google/protobuf/wrappers.proto'')]"

definition remoteStep :: "env \<Rightarrow> string \<Rightarrow> string \<times> string \<Rightarrow> world \<Rightarrow> error option \<times> world" where
  "remoteStep E tmpDir f w =
     protoc E ''go''
       [''-I'' @ filepath_Join (protoRoot E) (fst f),
        ''--go_out='' @ protoMapOpt E @ '':'' @ tmpDir,
        snd f] w"

text \<open>The two arguments of the special-case \<^verbatim>\<open>copyFile\<close> call: destination, then source.\<close>

definition fieldMaskDst :: "string \<Rightarrow> string" where
  "fieldMaskDst tmpDir =
     filepath_Join tmpDir ''google.golang.org/protobuf/internal/testprotos/fieldmaskpb/field_mask.pb.go''"

definition fieldMaskSrc :: "string \<Rightarrow> string" where
  "fieldMaskSrc tmpDir =
     filepath_Join tmpDir ''google.golang.org/genproto/protobuf/field_mask/field_mask.pb.go''"

text \<open>The loop over the remote files, and the rest of the body of \<^verbatim>\<open>generateRemoteProtos\<close>.\<close>

definition remoteTargets :: "env \<Rightarrow> string \<Rightarrow> world \<Rightarrow> error option \<times> world" where
  "remoteTargets E tmpDir w = forEach (remoteStep E tmpDir) remoteFiles w"

definition remoteBody :: "env \<Rightarrow> string \<Rightarrow> world \<Rightarrow> error option \<times> world" where
  "remoteBody E tmpDir w =
     (case remoteTargets E tmpDir w of
        (Some e, w1) \<Rightarrow> (Some e, w1)
      | (None, w1) \<Rightarrow>
          (case copyFile (fieldMaskDst tmpDir) (fieldMaskSrc tmpDir) w1 of
             (Some e, w2) \<Rightarrow> (Some e, w2)
           | (None, w2) \<Rightarrow> syncOutput E (repoRoot E) (filepath_Join tmpDir (modulePath E)) w2))"

definition generateRemoteProtos :: "env \<Rightarrow> world \<Rightarrow> error option \<times> world" where
  "generateRemoteProtos E w =
     (case TempDir E (repoRoot E) ''tmp'' (files w) of
        Inl e \<Rightarrow> (Some e, w)
      | Inr (tmpDir, fs1) \<Rightarrow>
          (case remoteBody E tmpDir (w\<lparr>files := fs1\<rparr>) of
             (r, w') \<Rightarrow> (r, w'\<lparr>files := RemoveAll tmpDir (files w')\<rparr>)))"

subsection \<open>main\<close>

text \<open>
  \<^verbatim>\<open>main\<close>, after \<^verbatim>\<open>flag.Parse\<close> has set \<^const>\<open>run\<close> and \<^const>\<open>protoRoot\<close>. A panic
  of the first generator ends the process: the second one does not run.
\<close>

definition main :: "env \<Rightarrow> world \<Rightarrow> error option \<times> world" where
  "main E w =
     (if protoRoot E = [] then (Some (ConfigError ''protobuf source root is not set''), w)
      else
        (case generateLocalProtos E w of
           (Some e, w') \<Rightarrow> (Some e, w')
         | (None, w') \<Rightarrow> generateRemoteProtos E w'))"

subsection \<open>Descriptors\<close>

text \<open>
  What the program reads of a \<^verbatim>\<open>protogen.File\<close>: whether it is to be generated, the
  package and path of its descriptor, and its messages. Of a message: the Go name, the
  full name of the descriptor, the fields and the nested messages. Of a field: the Go
  name and, from the descriptor, number, cardinality, kind and the full name of the enum
  or message the field refers to (the one for its kind is the one that is read).
\<close>

datatype kind =
    BoolKind | EnumKind | Int32Kind | Sint32Kind | Uint32Kind | Int64Kind | Sint64Kind
  | Uint64Kind | Sfixed32Kind | Fixed32Kind | FloatKind | Sfixed64Kind | Fixed64Kind
  | DoubleKind | StringKind | BytesKind | MessageKind | GroupKind

datatype cardinality = Optional | Required | Repeated

record field =
  GoName :: string
  Desc_Number :: int
  Desc_Cardinality :: cardinality
  Desc_Kind :: kind
  Desc_Enum_FullName :: string
  Desc_Message_FullName :: string

datatype message =
  Message (GoIdent_GoName: string) (Desc_FullName: string) (Fields: "field list")
    (Nested: "message list")

record protoFile =
  Generate :: bool
  Desc_Package :: string
  Desc_Path :: string
  Messages :: "message list"

text \<open>
  Modelled from the spec: the \<^verbatim>\<open>String\<close> methods of \<^verbatim>\<open>protoreflect.Kind\<close> and
  \<^verbatim>\<open>protoreflect.Cardinality\<close> are not in the source file; the spec calls their results
  the scalar kind name (as in \<^verbatim>\<open>string\<close>) and the cardinality
  (optional/repeated/required).
\<close>

fun Kind_String :: "kind \<Rightarrow> string" where
  "Kind_String BoolKind = ''bool''"
| "Kind_String EnumKind = ''enum''"
| "Kind_String Int32Kind = ''int32''"
| "Kind_String Sint32Kind = ''sint32''"
| "Kind_String Uint32Kind = ''uint32''"
| "Kind_String Int64Kind = ''int64''"
| "Kind_String Sint64Kind = ''sint64''"
| "Kind_String Uint64Kind = ''uint64''"
| "Kind_String Sfixed32Kind = ''sfixed32''"
| "Kind_String Fixed32Kind = ''fixed32''"
| "Kind_String FloatKind = ''float''"
| "Kind_String Sfixed64Kind = ''sfixed64''"
| "Kind_String Fixed64Kind = ''fixed64''"
| "Kind_String DoubleKind = ''double''"
| "Kind_String StringKind = ''string''"
| "Kind_String BytesKind = ''bytes''"
| "Kind_String MessageKind = ''message''"
| "Kind_String GroupKind = ''group''"

fun Cardinality_String :: "cardinality \<Rightarrow> string" where
  "Cardinality_String Optional = ''optional''"
| "Cardinality_String Required = ''required''"
| "Cardinality_String Repeated = ''repeated''"

text \<open>A number as \<^verbatim>\<open>fmt.Fprint\<close> writes it: in decimal, with a sign when negative.\<close>

fun showNat :: "nat \<Rightarrow> string" where
  "showNat n =
     (if n < 10 then [''0123456789'' ! n]
      else showNat (n div 10) @ [''0123456789'' ! (n mod 10)])"

definition showInt :: "int \<Rightarrow> string" where
  "showInt i = (if i < 0 then ''-'' @ showNat (nat (- i)) else showNat (nat i))"

subsection \<open>generateFieldNumbers\<close>

text \<open>The name of the type of a field, as the \<^verbatim>\<open>switch fd.Kind()\<close> computes it.\<close>

definition typeName :: "field \<Rightarrow> string" where
  "typeName fd =
     (case Desc_Kind fd of
        EnumKind \<Rightarrow> Desc_Enum_FullName fd
      | MessageKind \<Rightarrow> Desc_Message_FullName fd
      | GroupKind \<Rightarrow> Desc_Message_FullName fd
      | _ \<Rightarrow> Kind_String (Desc_Kind fd))"

text \<open>
  The line that \<^verbatim>\<open>g.P\<close> writes for one field: \<^verbatim>\<open>P\<close> prints its arguments one after
  the other and ends the line.
\<close>

definition fieldLine :: "string \<Rightarrow> field \<Rightarrow> string" where
  "fieldLine messageGoName fd =
     messageGoName @ ''_'' @ GoName fd @ ''='' @ showInt (Desc_Number fd) @ ''// '' @
     Cardinality_String (Desc_Cardinality fd) @ '' '' @ typeName fd"

fun processMessages :: "message list \<Rightarrow> string list"
  and processMessage :: "message \<Rightarrow> string list" where
  "processMessages [] = []"
| "processMessages (m # ms) = processMessage m @ processMessages ms"
| "processMessage (Message goName fullName fds nested) =
     [''// Field numbers for '' @ fullName @ ''.'', ''const (''] @
     map (fieldLine goName) fds @
     ['')''] @
     processMessages nested"

text \<open>
  The file that \<^verbatim>\<open>generateFieldNumbers\<close> adds to the response, as its name and its
  lines, or nothing.
\<close>

definition generateFieldNumbers :: "string \<Rightarrow> protoFile \<Rightarrow> (string \<times> string list) option" where
  "generateFieldNumbers modPath file =
     (if Desc_Package file \<noteq> ''google.protobuf'' then None
      else
        (let importPath = modPath @ ''/internal/fieldnum'';
             base = strings_TrimSuffix (filepath_Base (Desc_Path file)) ''.proto''
         in Some (importPath @ ''/'' @ base @ ''_gen.go'',
                  generatedPreamble @
                  [''package '' @ filepath_Base importPath, []] @
                  processMessages (Messages file))))"

subsection \<open>Plugin mode\<close>

text \<open>
  What a run in plugin mode does, in order: a call of \<^verbatim>\<open>gengo.GenerateFile\<close> or of
  \<^verbatim>\<open>gengogrpc.GenerateFile\<close> on a file (given by the path of its descriptor), or a file
  that \<^verbatim>\<open>generateFieldNumbers\<close> adds for it. The two backends are not part of the
  program.
\<close>

datatype event =
    GoFile string
  | FieldNumberFile string string "string list"
  | GoGrpcFile string

fun eventSource :: "event \<Rightarrow> string" where
  "eventSource (GoFile p) = p"
| "eventSource (FieldNumberFile p n ls) = p"
| "eventSource (GoGrpcFile p) = p"

text \<open>The body of the two loops of the function that \<^verbatim>\<open>init\<close> passes to \<^verbatim>\<open>protogen.Run\<close>.\<close>

definition pluginStep :: "string \<Rightarrow> string \<Rightarrow> protoFile \<Rightarrow> event list" where
  "pluginStep modPath plugin file =
     (if Generate file then
        (if plugin = ''go'' then
           GoFile (Desc_Path file) #
           (case generateFieldNumbers modPath file of
              None \<Rightarrow> []
            | Some (name, ls) \<Rightarrow> [FieldNumberFile (Desc_Path file) name ls])
         else if plugin = ''gogrpc'' then [GoGrpcFile (Desc_Path file)]
         else [])
      else [])"

definition pluginRun :: "string \<Rightarrow> string \<Rightarrow> protoFile list \<Rightarrow> event list" where
  "pluginRun modPath plugins genFiles =
     concat (map (\<lambda>plugin. concat (map (pluginStep modPath plugin) genFiles))
                 (strings_Split plugins (CHR '','')))"

text \<open>
  The iteration as the specification words it: file by file, the named backends in their
  order on each.
\<close>

definition perFileRun :: "string \<Rightarrow> string \<Rightarrow> protoFile list \<Rightarrow> event list" where
  "perFileRun modPath plugins genFiles =
     concat (map (\<lambda>file. concat (map (\<lambda>plugin. pluginStep modPath plugin file)
                                      (strings_Split plugins (CHR '','')))) genFiles)"

subsection \<open>Start of the process\<close>

text \<open>
  What the process finds when it starts: the outputs of the two commands \<^verbatim>\<open>init\<close> runs,
  the environment variable, and the request \<^verbatim>\<open>protogen.Run\<close> decodes from standard
  input. The process ends in plugin mode with the response or with the decoding error, or
  it goes through \<^verbatim>\<open>main\<close>.
\<close>

record startup =
  gitRevParse :: "error + string"
  goListModule :: "error + string"
  RUN_AS_PROTOC_PLUGIN :: string
  request :: "error + protoFile list"

datatype exit =
    PluginResponse "event list"
  | PluginFailure error
  | Panicked error
  | Returned

definition process :: "startup \<Rightarrow> env \<Rightarrow> world \<Rightarrow> exit \<times> world" where
  "process S E w =
     (case gitRevParse S of
        Inl e \<Rightarrow> (Panicked e, w)
      | Inr out1 \<Rightarrow>
          (case goListModule S of
             Inl e \<Rightarrow> (Panicked e, w)
           | Inr out2 \<Rightarrow>
               (let E' = E\<lparr>repoRoot := strings_TrimSpace out1, modulePath := strings_TrimSpace out2\<rparr>;
                    plugins = RUN_AS_PROTOC_PLUGIN S
                in if plugins \<noteq> [] then
                     (case request S of
                        Inl e \<Rightarrow> (PluginFailure e, w)
                      | Inr genFiles \<Rightarrow> (PluginResponse (pluginRun (modulePath E') plugins genFiles), w))
                   else
                     (case main E' w of
                        (Some e, w') \<Rightarrow> (Panicked e, w')
                      | (None, w') \<Rightarrow> (Returned, w')))))"

subsection \<open>Notions used to state the properties\<close>

text \<open>The messages of a file in the order of a depth-first visit: a message, then its nested ones.\<close>

fun flattenMessages :: "message list \<Rightarrow> message list"
  and flattenMessage :: "message \<Rightarrow> message list" where
  "flattenMessages [] = []"
| "flattenMessages (m # ms) = flattenMessage m @ flattenMessages ms"
| "flattenMessage (Message goName fullName fds nested) =
     Message goName fullName fds nested # flattenMessages nested"

text \<open>
  The constants of one message as the specification describes them: one per field, named
  after message and field, equal to the number, with cardinality and type in a comment.
\<close>

definition messageBlock :: "message \<Rightarrow> string list" where
  "messageBlock m =
     [''// Field numbers for '' @ Desc_FullName m @ ''.'', ''const (''] @
     map (\<lambda>fd. GoIdent_GoName m @ ''_'' @ GoName fd @ ''='' @ showInt (Desc_Number fd) @ ''// '' @
                Cardinality_String (Desc_Cardinality fd) @ '' '' @
                (if Desc_Kind fd = EnumKind then Desc_Enum_FullName fd
                 else if Desc_Kind fd = MessageKind \<or> Desc_Kind fd = GroupKind
                 then Desc_Message_FullName fd
                 else Kind_String (Desc_Kind fd)))
         (Fields m) @
     ['')'']"


text \<open>The arguments of the toolchain run for one description file of a directory.\<close>

definition localArgs :: "env \<Rightarrow> genDir \<Rightarrow> string \<Rightarrow> string \<Rightarrow> string list" where
  "localArgs E d dstDir relPath =
     [''-I'' @ filepath_Join (protoRoot E) ''src'',
      ''-I'' @ repoRoot E,
      ''--go_out='' @
        (if mapBool (annotateFor d) (filepath_ToSlash relPath)
         then (''paths=source_relative,'' @ protoMapOpt E) @ '',annotate_code''
         else ''paths=source_relative,'' @ protoMapOpt E) @ '':'' @ dstDir,
      relPath]"

text \<open>
  A recorded toolchain run is in order for a directory walked over \<open>ps\<close>: the backend
  names are those of the directory, and the description file is one of \<open>ps\<close> that is
  neither a legacy snapshot nor excluded.
\<close>

definition callOk :: "env \<Rightarrow> genDir \<Rightarrow> string list \<Rightarrow> string \<times> string list \<Rightarrow> bool" where
  "callOk E d ps c =
     (fst c = (if grpcPlugin d then ''go,gogrpc'' else ''go'') \<and>
      (\<exists>p \<in> set ps. strings_HasSuffix p ''.proto'' \<and> \<not> excludeRx_MatchString p \<and>
         filepath_Rel (repoRoot E) p = Inr (last (snd c)) \<and>
         \<not> mapBool (exclude d) (last (snd c))))"

text \<open>
  For \<^verbatim>\<open>syncOutput\<close>: the paths it copies or compares, the destination of a staged path,
  and the lines an applying pass over the paths \<open>ps\<close> prints.
\<close>

definition syncMatch :: "string \<Rightarrow> bool" where
  "syncMatch p = (strings_HasSuffix p ''.go'' \<or> strings_HasSuffix p ''.meta'')"

definition syncDst :: "string \<Rightarrow> string \<Rightarrow> string \<Rightarrow> string option" where
  "syncDst dstDir srcDir p =
     (case filepath_Rel srcDir p of Inr rel \<Rightarrow> Some (filepath_Join dstDir rel) | Inl e \<Rightarrow> None)"

definition syncReports :: "string \<Rightarrow> string list \<Rightarrow> string list" where
  "syncReports srcDir ps =
     concat (map (\<lambda>p. if syncMatch p
                       then (case filepath_Rel srcDir p of Inr rel \<Rightarrow> [''# '' @ rel] | Inl e \<Rightarrow> [])
                       else []) ps)"

text \<open>No destination of a staged path lies in the staging directory.\<close>

definition apart :: "string \<Rightarrow> string \<Rightarrow> string list \<Rightarrow> bool" where
  "apart dstDir srcDir ps =
     (\<forall>p \<in> set ps. syncMatch p \<longrightarrow>
        (\<forall>rel. filepath_Rel srcDir p = Inr rel \<longrightarrow> \<not> isUnder srcDir (filepath_Join dstDir rel)))"

text \<open>Two file systems hold the same entries, in the same order, at and under a directory.\<close>

definition sameUnder :: "string \<Rightarrow> fs \<Rightarrow> fs \<Rightarrow> bool" where
  "sameUnder root fs fs' =
     (filter (isUnder root) (map fst fs') = filter (isUnder root) (map fst fs) \<and>
      (\<forall>p. isUnder root p \<longrightarrow> map_of fs' p = map_of fs p))"

text \<open>The directories that \<^verbatim>\<open>copyFile\<close> makes sure of before it writes to \<open>d\<close>.\<close>

definition mkChain :: "string \<Rightarrow> string list" where
  "mkChain d =
     (let x = filepath_Dir d
      in if x = ''.'' \<or> x = [slash] then [] else dirPrefixes [] x @ [x])"

text \<open>A destination that a copy has reached: its directories exist and it is a regular file.\<close>

definition settled :: "fs \<Rightarrow> string \<Rightarrow> bool" where
  "settled fs d =
     ((\<forall>q \<in> set (mkChain d). map_of fs q = Some Dir) \<and>
      d \<noteq> ''.'' \<and> d \<noteq> [slash] \<and> (\<exists>b. map_of fs d = Some (File b)))"

definition content :: "fs \<Rightarrow> string \<Rightarrow> string" where
  "content fs p = (case map_of fs p of Some (File b) \<Rightarrow> b | _ \<Rightarrow> [])"

text \<open>What the last copy to \<open>q\<close> of a pass over \<open>ps\<close> writes, reading the staged files of \<open>fs\<close>.\<close>

fun lastWrite :: "string \<Rightarrow> string \<Rightarrow> fs \<Rightarrow> string list \<Rightarrow> string \<Rightarrow> string option" where
  "lastWrite dstDir srcDir fs [] q = None"
| "lastWrite dstDir srcDir fs (p # ps) q =
     (case lastWrite dstDir srcDir fs ps q of
        Some b \<Rightarrow> Some b
      | None \<Rightarrow> if syncMatch p \<and> syncDst dstDir srcDir p = Some q then Some (content fs p) else None)"





subsection \<open>Example inputs\<close>

definition exampleMessage :: message where
  "exampleMessage =
     Message ''X'' ''google.protobuf.X''
       [\<lparr>GoName = ''Name'', Desc_Number = 1, Desc_Cardinality = Optional, Desc_Kind = StringKind,
         Desc_Enum_FullName = [], Desc_Message_FullName = []\<rparr>,
        \<lparr>GoName = ''Tags'', Desc_Number = 2, Desc_Cardinality = Repeated, Desc_Kind = StringKind,
         Desc_Enum_FullName = [], Desc_Message_FullName = []\<rparr>] []"

definition exampleFile :: protoFile where
  "exampleFile = \<lparr>Generate = True, Desc_Package = ''google.protobuf'',
     Desc_Path = ''google/protobuf/x.proto'', Messages = [exampleMessage]\<rparr>"

definition fileA :: protoFile where
  "fileA = \<lparr>Generate = True, Desc_Package = ''a'', Desc_Path = ''a.proto'', Messages = []\<rparr>"

definition fileB :: protoFile where
  "fileB = \<lparr>Generate = True, Desc_Package = ''b'', Desc_Path = ''b.proto'', Messages = []\<rparr>"

definition fileC :: protoFile where
  "fileC = \<lparr>Generate = False, Desc_Package = ''c'', Desc_Path = ''c.proto'', Messages = []\<rparr>"

text \<open>
  A toolchain for the examples: it writes one file for the description file it is given,
  below the directory named after the colon of \<^verbatim>\<open>--go_out\<close>; for
  \<^verbatim>\<open>field_mask.proto\<close> at the location its \<^verbatim>\<open>go_package\<close> option names.
\<close>

definition stubToolchain :: "string \<Rightarrow> string list \<Rightarrow> fs \<Rightarrow> string option \<times> fs" where
  "stubToolchain plugins cmdArgs fs =
     (case find (\<lambda>a. prefix ''--go_out='' a) cmdArgs of
        None \<Rightarrow> (Some ''no output directory'', fs)
      | Some a \<Rightarrow>
          (let outDir = rev (takeWhile (\<lambda>c. c \<noteq> CHR '':'') (rev a));
               src = last cmdArgs;
               target =
                 (if src = ''google/protobuf/field_mask.proto''
                  then filepath_Join outDir
                         ''google.golang.org/genproto/protobuf/field_mask/field_mask.pb.go''
                  else filepath_Join outDir (strings_TrimSuffix src ''.proto'' @ ''.pb.go''))
           in case MkdirAll (filepath_Dir target) fs of
                Inl e \<Rightarrow> (Some ''mkdir'', fs)
              | Inr fs1 \<Rightarrow>
                  (case WriteFile target (plugins @ '' '' @ src) fs1 of
                     Inl e \<Rightarrow> (Some ''write'', fs1)
                   | Inr fs2 \<Rightarrow> (None, fs2))))"

definition exampleEnv :: env where
  "exampleEnv =
     \<lparr>run = True, protoRoot = ''/p'', repoRoot = ''/r'', modulePath = ''m'',
      selfExe = ''generate-protos'', toolchain = stubToolchain,
      diffTool = (\<lambda>dstPath srcPath fs.
        if map_of fs dstPath = map_of fs srcPath then [] else [''--- '' @ dstPath, ''+++ '' @ srcPath]),
      formatSource = Some, tempNames = [''1'', ''2''], rangeSubDirs = rev, rangePackages = rev\<rparr>"

definition exampleJob :: genDir where
  "exampleJob =
     \<lparr>path = ''x/testdata'', grpcPlugin = True, annotateFor = [],
      exclude = [(''x/testdata/b/skip.proto'', True)]\<rparr>"

definition exampleWorld :: world where
  "exampleWorld =
     \<lparr>files =
        [(''/r'', Dir), (''/r/x'', Dir), (''/r/x/testdata'', Dir),
         (''/r/x/testdata/b'', Dir), (''/r/x/testdata/b/skip.proto'', File ''skip''),
         (''/r/x/testdata/a'', Dir), (''/r/x/testdata/a/one.proto'', File ''one''),
         (''/r/x/testdata/legacy'', Dir),
         (''/r/x/testdata/legacy/proto2_20160225_2fc053c5'', Dir),
         (''/r/x/testdata/legacy/proto2_20160225_2fc053c5/old.proto'', File ''old''),
         (''/r/tmp1'', Dir)],
      stdout = [], calls = []\<rparr>"

definition pluginStartup :: startup where
  "pluginStartup = \<lparr>gitRevParse = Inr ''/r'', goListModule = Inr ''m'',
     RUN_AS_PROTOC_PLUGIN = ''go,gogrpc'', request = Inr [fileA, fileC, fileB]\<rparr>"

text \<open>The state after the example directory has been generated into \<^verbatim>\<open>/r/tmp1\<close>.\<close>

definition exampleJobWorld :: world where
  "exampleJobWorld =
     \<lparr>files =
        files exampleWorld @
        [(''/r/tmp1/x'', Dir), (''/r/tmp1/x/testdata'', Dir), (''/r/tmp1/x/testdata/a'', Dir),
         (''/r/tmp1/x/testdata/a/one.pb.go'', File ''go,gogrpc x/testdata/a/one.proto''),
         (''/r/tmp1/x/testdata/gen_test.go'', File (genTestSource exampleEnv exampleJob [''b'', ''a'']))],
      stdout = [],
      calls = [(''go,gogrpc'', localArgs exampleEnv exampleJob ''/r/tmp1'' ''x/testdata/a/one.proto'')]\<rparr>"

text \<open>A toolchain that does nothing, and one that always fails.\<close>

definition quietEnv :: env where
  "quietEnv = exampleEnv\<lparr>toolchain := (\<lambda>plugins cmdArgs fs. (None, fs))\<rparr>"

definition failEnv :: env where
  "failEnv = exampleEnv\<lparr>toolchain := (\<lambda>plugins cmdArgs fs. (Some ''exit status 1'', fs))\<rparr>"

text \<open>A repository without description files.\<close>

definition bareWorld :: world where
  "bareWorld = \<lparr>files = [(''/r'', Dir)], stdout = [], calls = []\<rparr>"

text \<open>A staging directory that holds the generated field mask at both locations.\<close>

definition remoteWorld :: world where
  "remoteWorld =
     \<lparr>files =
        [(''/r'', Dir), (''/r/tmp1'', Dir), (''/r/tmp1/google.golang.org'', Dir),
         (''/r/tmp1/google.golang.org/genproto'', Dir),
         (''/r/tmp1/google.golang.org/genproto/protobuf'', Dir),
         (''/r/tmp1/google.golang.org/genproto/protobuf/field_mask'', Dir),
         (''/r/tmp1/google.golang.org/genproto/protobuf/field_mask/field_mask.pb.go'', File ''new''),
         (''/r/tmp1/google.golang.org/protobuf'', Dir),
         (''/r/tmp1/google.golang.org/protobuf/internal'', Dir),
         (''/r/tmp1/google.golang.org/protobuf/internal/testprotos'', Dir),
         (''/r/tmp1/google.golang.org/protobuf/internal/testprotos/fieldmaskpb'', Dir),
         (''/r/tmp1/google.golang.org/protobuf/internal/testprotos/fieldmaskpb/field_mask.pb.go'',
          File ''stale'')],
      stdout = [], calls = []\<rparr>"

text \<open>A staging directory that holds a file below a directory of its own name.\<close>

definition nestedWorld :: world where
  "nestedWorld =
     \<lparr>files = [(''/r'', Dir), (''/r/tmp1'', Dir), (''/r/tmp1/tmp1'', Dir),
               (''/r/tmp1/tmp1/a.go'', File ''X'')],
      stdout = [], calls = []\<rparr>"

text \<open>A staging directory with two generated files and one other file, beside an older copy.\<close>

definition stagedWorld :: world where
  "stagedWorld =
     \<lparr>files = [(''/r'', Dir), (''/r/x'', Dir), (''/r/x/a.go'', File ''old''),
               (''/r/tmp1'', Dir), (''/r/tmp1/x'', Dir), (''/r/tmp1/x/a.go'', File ''new''),
               (''/r/tmp1/x/a.meta'', File ''meta''), (''/r/tmp1/x/notes.txt'', File ''skip'')],
      stdout = [], calls = []\<rparr>"





section \<open>Properties\<close>

subsection \<open>The field-number extractor\<close>

lemma typeName_cases:
  "typeName fd =
     (if Desc_Kind fd = EnumKind then Desc_Enum_FullName fd
      else if Desc_Kind fd = MessageKind \<or> Desc_Kind fd = GroupKind then Desc_Message_FullName fd
      else Kind_String (Desc_Kind fd))"
  by (cases "Desc_Kind fd") (simp_all add: typeName_def)

lemma processMessages_flatten:
  "processMessages ms = concat (map messageBlock (flattenMessages ms))"
  "processMessage m = concat (map messageBlock (flattenMessage m))"
  by (induction ms and m rule: processMessages_processMessage.induct)
     (simp_all add: messageBlock_def fieldLine_def typeName_cases)

lemma Base_fieldnum: "filepath_Base (modPath @ ''/internal/fieldnum'') = ''fieldnum''"
  by (simp add: filepath_Base_def slash_def)

text \<open>
  C3: for a file whose package is not \<^verbatim>\<open>google.protobuf\<close> the extractor adds nothing to the
  response. For a file of that package it adds one file, which holds after the preamble
  and the package clause, for each message in the order of a depth-first visit of the
  declarations (nested messages included), one constant per field in the order of the
  fields: \<^verbatim>\<open><MessageGoName>_<FieldGoName>\<close>, equal to the number of the field, with a
  comment giving the cardinality and the full name of the enum or message for a field of
  enum, message or group kind, the name of the kind otherwise.
\<close>

theorem fieldnumbers_extractor:
  "generateFieldNumbers modPath file =
     (if Desc_Package file \<noteq> ''google.protobuf'' then None
      else Some (modPath @ ''/internal/fieldnum/'' @
                   strings_TrimSuffix (filepath_Base (Desc_Path file)) ''.proto'' @ ''_gen.go'',
                 generatedPreamble @ [''package fieldnum'', []] @
                   concat (map messageBlock (flattenMessages (Messages file)))))"
  by (simp add: generateFieldNumbers_def Base_fieldnum processMessages_flatten Let_def)

theorem fieldnumbers_extractor_witness:
  "generateFieldNumbers ''m'' exampleFile =
     Some (''m/internal/fieldnum/x_gen.go'',
           generatedPreamble @
           [''package fieldnum'', [],
            ''// Field numbers for google.protobuf.X.'',
            ''const ('',
            ''X_Name=1// optional string'',
            ''X_Tags=2// repeated string'',
            '')''])"
  using fieldnumbers_extractor [of "''m''" exampleFile]
  by (simp add: exampleFile_def exampleMessage_def messageBlock_def filepath_Base_def slash_def
      strings_TrimSuffix_def strings_HasSuffix_def showInt_def suffix_def)

subsection \<open>Plugin mode\<close>

lemma pluginStep_not_generated: "\<not> Generate f \<Longrightarrow> pluginStep modPath p f = []"
  by (simp add: pluginStep_def)

lemma concat_map_filter_nil:
  "(\<And>x. x \<in> set xs \<Longrightarrow> \<not> P x \<Longrightarrow> h x = []) \<Longrightarrow>
   concat (map h (filter P xs)) = concat (map h xs)"
  by (induction xs) auto

lemma pluginStep_source:
  "e \<in> set (pluginStep modPath p f) \<Longrightarrow> eventSource e = Desc_Path f"
  by (auto simp: pluginStep_def split: if_splits option.splits)

lemma filter_source_other:
  "Desc_Path g \<noteq> Desc_Path f \<Longrightarrow>
   filter (\<lambda>e. eventSource e = Desc_Path f) (pluginStep modPath p g) = []"
  by (auto simp: filter_empty_conv dest: pluginStep_source)

lemma filter_source_same:
  "filter (\<lambda>e. eventSource e = Desc_Path f) (pluginStep modPath p f) = pluginStep modPath p f"
  by (auto simp: filter_id_conv dest: pluginStep_source)

lemma project_files:
  "distinct (map Desc_Path fs) \<Longrightarrow> f \<in> set fs \<Longrightarrow>
   filter (\<lambda>e. eventSource e = Desc_Path f) (concat (map (pluginStep modPath p) fs)) =
   pluginStep modPath p f"
proof (induction fs)
  case Nil
  then show ?case by simp
next
  case (Cons g gs)
  show ?case
  proof (cases "g = f")
    case True
    have "\<forall>h \<in> set gs. Desc_Path h \<noteq> Desc_Path f"
    proof
      fix h assume h: "h \<in> set gs"
      have "Desc_Path f \<notin> Desc_Path ` set gs" using Cons.prems(1) True by simp
      then show "Desc_Path h \<noteq> Desc_Path f" using h by (metis imageI)
    qed
    then have "filter (\<lambda>e. eventSource e = Desc_Path f) (concat (map (pluginStep modPath p) gs)) = []"
      by (induction gs) (auto simp: filter_source_other)
    then show ?thesis using True by (simp add: filter_source_same)
  next
    case False
    then have "f \<in> set gs" using Cons.prems(2) by simp
    moreover from this have "Desc_Path g \<noteq> Desc_Path f" using Cons.prems(1) by auto
    ultimately show ?thesis using Cons by (simp add: filter_source_other)
  qed
qed

lemma project_run:
  assumes "distinct (map Desc_Path fs)" "f \<in> set fs"
  shows "filter (\<lambda>e. eventSource e = Desc_Path f)
           (concat (map (\<lambda>p. concat (map (pluginStep modPath p) fs)) ps)) =
         concat (map (\<lambda>p. pluginStep modPath p f) ps)"
  by (induction ps) (simp_all add: project_files [OF assms])

text \<open>
  C2, as the code has it. In plugin mode the process answers with the response of
  \<^const>\<open>pluginRun\<close> and ends without running \<^const>\<open>main\<close>: the state of the batch
  run is untouched. The iteration is per backend: for each name of the comma-separated
  list, in the order of the list, every file of the request marked for generation, in the
  order of the request. Hence the steps that concern one file are the named backends in
  the order of the list. The name \<^verbatim>\<open>go\<close> runs the Go backend and then the field-number
  extractor, the name \<^verbatim>\<open>gogrpc\<close> runs the gRPC backend, any other name runs nothing.
\<close>

theorem plugin_mode_per_backend:
  "(gitRevParse S = Inr out1 \<and> goListModule S = Inr out2 \<and> RUN_AS_PROTOC_PLUGIN S \<noteq> [] \<and>
    request S = Inr genFiles \<longrightarrow>
      process S E w =
        (PluginResponse (pluginRun (strings_TrimSpace out2) (RUN_AS_PROTOC_PLUGIN S) genFiles), w)) \<and>
   pluginRun modPath plugins genFiles =
     concat (map (\<lambda>plugin. concat (map (pluginStep modPath plugin) (filter Generate genFiles)))
                 (strings_Split plugins (CHR '',''))) \<and>
   (distinct (map Desc_Path genFiles) \<and> file \<in> set genFiles \<longrightarrow>
      filter (\<lambda>e. eventSource e = Desc_Path file) (pluginRun modPath plugins genFiles) =
      concat (map (\<lambda>plugin. pluginStep modPath plugin file) (strings_Split plugins (CHR '','')))) \<and>
   pluginStep modPath plugin file =
     (if Generate file \<and> plugin = ''go'' then
        GoFile (Desc_Path file) #
        (case generateFieldNumbers modPath file of
           None \<Rightarrow> []
         | Some (name, ls) \<Rightarrow> [FieldNumberFile (Desc_Path file) name ls])
      else if Generate file \<and> plugin = ''gogrpc'' then [GoGrpcFile (Desc_Path file)]
      else [])"
proof (intro conjI impI)
  assume "gitRevParse S = Inr out1 \<and> goListModule S = Inr out2 \<and> RUN_AS_PROTOC_PLUGIN S \<noteq> [] \<and>
    request S = Inr genFiles"
  then show "process S E w =
        (PluginResponse (pluginRun (strings_TrimSpace out2) (RUN_AS_PROTOC_PLUGIN S) genFiles), w)"
    by (simp add: process_def Let_def)
next
  have "\<And>p. concat (map (pluginStep modPath p) (filter Generate genFiles)) =
             concat (map (pluginStep modPath p) genFiles)"
    by (rule concat_map_filter_nil) (simp add: pluginStep_not_generated)
  then show "pluginRun modPath plugins genFiles =
     concat (map (\<lambda>plugin. concat (map (pluginStep modPath plugin) (filter Generate genFiles)))
                 (strings_Split plugins (CHR '','')))"
    by (simp add: pluginRun_def)
next
  assume "distinct (map Desc_Path genFiles) \<and> file \<in> set genFiles"
  then show "filter (\<lambda>e. eventSource e = Desc_Path file) (pluginRun modPath plugins genFiles) =
      concat (map (\<lambda>plugin. pluginStep modPath plugin file) (strings_Split plugins (CHR '','')))"
    by (simp add: pluginRun_def project_run)
next
  show "pluginStep modPath plugin file =
     (if Generate file \<and> plugin = ''go'' then
        GoFile (Desc_Path file) #
        (case generateFieldNumbers modPath file of
           None \<Rightarrow> []
         | Some (name, ls) \<Rightarrow> [FieldNumberFile (Desc_Path file) name ls])
      else if Generate file \<and> plugin = ''gogrpc'' then [GoGrpcFile (Desc_Path file)]
      else [])"
    by (simp add: pluginStep_def)
qed

theorem plugin_mode_per_backend_witness:
  "process pluginStartup exampleEnv exampleWorld =
     (PluginResponse
        [GoFile ''a.proto'', GoFile ''b.proto'', GoGrpcFile ''a.proto'', GoGrpcFile ''b.proto''],
      exampleWorld) \<and>
   filter (\<lambda>e. eventSource e = ''b.proto'') (pluginRun ''m'' ''go,gogrpc'' [fileA, fileC, fileB]) =
     [GoFile ''b.proto'', GoGrpcFile ''b.proto'']"
proof -
  have split: "strings_Split ''go,gogrpc'' (CHR '','') = [''go'', ''gogrpc'']"
    by (simp add: strings_Split_def)
  have trim: "strings_TrimSpace ''m'' = ''m''"
    by (simp add: strings_TrimSpace_def isSpace_def)
  have steps:
    "pluginStep ''m'' ''go'' fileA = [GoFile ''a.proto'']"
    "pluginStep ''m'' ''go'' fileB = [GoFile ''b.proto'']"
    "pluginStep ''m'' ''go'' fileC = []"
    "pluginStep ''m'' ''gogrpc'' fileA = [GoGrpcFile ''a.proto'']"
    "pluginStep ''m'' ''gogrpc'' fileB = [GoGrpcFile ''b.proto'']"
    "pluginStep ''m'' ''gogrpc'' fileC = []"
    by (simp_all add: pluginStep_def generateFieldNumbers_def fileA_def fileB_def fileC_def)
  have gen: "filter Generate [fileA, fileC, fileB] = [fileA, fileB]"
    by (simp add: fileA_def fileB_def fileC_def)
  have dist: "distinct (map Desc_Path [fileA, fileC, fileB]) \<and> fileB \<in> set [fileA, fileC, fileB]"
    by (simp add: fileA_def fileB_def fileC_def)
  have pathB: "Desc_Path fileB = ''b.proto''"
    by (simp add: fileB_def)
  have start: "gitRevParse pluginStartup = Inr ''/r'' \<and> goListModule pluginStartup = Inr ''m'' \<and>
      RUN_AS_PROTOC_PLUGIN pluginStartup \<noteq> [] \<and> request pluginStartup = Inr [fileA, fileC, fileB]"
    by (simp add: pluginStartup_def)
  have plugins: "RUN_AS_PROTOC_PLUGIN pluginStartup = ''go,gogrpc''"
    by (simp add: pluginStartup_def)
  note inst = plugin_mode_per_backend [of pluginStartup "''/r''" "''m''" "[fileA, fileC, fileB]"
      exampleEnv exampleWorld "''m''" "''go,gogrpc''" fileB "''go''"]
  note c1 = inst [THEN conjunct1]
  note c2 = inst [THEN conjunct2, THEN conjunct1]
  note c3 = inst [THEN conjunct2, THEN conjunct2, THEN conjunct1]
  from c2 have "pluginRun ''m'' ''go,gogrpc'' [fileA, fileC, fileB] =
      concat (map (\<lambda>plugin. concat (map (pluginStep ''m'' plugin) [fileA, fileB]))
                  [''go'', ''gogrpc''])"
    by (simp only: split gen)
  then have run: "pluginRun ''m'' ''go,gogrpc'' [fileA, fileC, fileB] =
      [GoFile ''a.proto'', GoFile ''b.proto'', GoGrpcFile ''a.proto'', GoGrpcFile ''b.proto'']"
    by (simp add: steps)
  from c1 [THEN mp, OF start] have "process pluginStartup exampleEnv exampleWorld =
      (PluginResponse (pluginRun ''m'' ''go,gogrpc'' [fileA, fileC, fileB]), exampleWorld)"
    by (simp only: trim plugins)
  moreover from c3 [THEN mp, OF dist] have
    "filter (\<lambda>e. eventSource e = Desc_Path fileB) (pluginRun ''m'' ''go,gogrpc'' [fileA, fileC, fileB]) =
       concat (map (\<lambda>plugin. pluginStep ''m'' plugin fileB) [''go'', ''gogrpc''])"
    by (simp only: split)
  ultimately show ?thesis using run by (simp add: steps pathB)
qed

text \<open>
  Against C2 as it is worded: on two files and the list \<^verbatim>\<open>go,gogrpc\<close> the run is not the
  iteration per file.
\<close>

theorem plugin_mode_per_file_counterexample:
  "pluginRun ''m'' ''go,gogrpc'' [fileA, fileB] =
     [GoFile ''a.proto'', GoFile ''b.proto'', GoGrpcFile ''a.proto'', GoGrpcFile ''b.proto''] \<and>
   perFileRun ''m'' ''go,gogrpc'' [fileA, fileB] =
     [GoFile ''a.proto'', GoGrpcFile ''a.proto'', GoFile ''b.proto'', GoGrpcFile ''b.proto''] \<and>
   pluginRun ''m'' ''go,gogrpc'' [fileA, fileB] \<noteq> perFileRun ''m'' ''go,gogrpc'' [fileA, fileB]"
  by code_simp

subsection \<open>Loops and the file system\<close>

lemma forEach_invariant:
  assumes "forEach f xs s = (r, s')" and "P s"
    and "\<And>x t r' t'. x \<in> set xs \<Longrightarrow> P t \<Longrightarrow> f x t = (r', t') \<Longrightarrow> P t'"
  shows "P s'"
  using assms
proof (induction xs arbitrary: s)
  case Nil
  then show ?case by simp
next
  case (Cons x xs)
  obtain r1 s1 where step: "f x s = (r1, s1)" by (cases "f x s")
  have P1: "P s1" using Cons.prems(3) [OF _ Cons.prems(2) step] by simp
  show ?case
  proof (cases r1)
    case None
    then have "forEach f xs s1 = (r, s')" using Cons.prems(1) step by simp
    then show ?thesis using Cons.IH P1 Cons.prems(3) by (metis list.set_intros(2))
  next
    case (Some e)
    then have "s' = s1" using Cons.prems(1) step by simp
    then show ?thesis using P1 by simp
  qed
qed

lemma forEach_Cons_None:
  "forEach f (x # xs) s = (None, s') \<longleftrightarrow> (\<exists>s1. f x s = (None, s1) \<and> forEach f xs s1 = (None, s'))"
  by (cases "f x s") (auto split: option.splits)

lemma mkdirs_lookup:
  "mkdirs qs fs = Inr fs' \<Longrightarrow>
   map_of fs' p = (if map_of fs p = None \<and> p \<in> set qs then Some Dir else map_of fs p)"
proof (induction qs arbitrary: fs)
  case Nil
  then show ?case by simp
next
  case (Cons q qs)
  show ?case
  proof (cases "map_of fs q")
    case None
    then have "mkdirs qs (fs @ [(q, Dir)]) = Inr fs'" using Cons.prems by simp
    from Cons.IH [OF this] show ?thesis using None
      by (auto simp: map_add_def split: option.splits)
  next
    case (Some n)
    then show ?thesis using Cons by (cases n) auto
  qed
qed

lemma mkdirs_keys:
  "mkdirs qs fs = Inr fs' \<Longrightarrow>
   \<exists>extra. map fst fs' = map fst fs @ extra \<and> set extra \<subseteq> set qs"
proof (induction qs arbitrary: fs)
  case Nil
  then show ?case by simp
next
  case (Cons q qs)
  show ?case
  proof (cases "map_of fs q")
    case None
    then have "mkdirs qs (fs @ [(q, Dir)]) = Inr fs'" using Cons.prems by simp
    from Cons.IH [OF this] show ?thesis by auto
  next
    case (Some n)
    then have "mkdirs qs fs = Inr fs'" using Cons.prems by (cases n) auto
    from Cons.IH [OF this] show ?thesis by auto
  qed
qed

lemma mkdirs_all_dirs:
  "\<forall>q \<in> set qs. map_of fs q = Some Dir \<Longrightarrow> mkdirs qs fs = Inr fs"
  by (induction qs) auto

lemma mkdirs_no_file:
  "mkdirs qs fs = Inr fs' \<Longrightarrow> q \<in> set qs \<Longrightarrow> map_of fs' q = Some Dir"
proof (induction qs arbitrary: fs)
  case Nil
  then show ?case by simp
next
  case (Cons a qs)
  show ?case
  proof (cases "map_of fs a")
    case None
    then have run: "mkdirs qs (fs @ [(a, Dir)]) = Inr fs'" using Cons.prems by simp
    show ?thesis
    proof (cases "q = a")
      case True
      have "map_of (fs @ [(a, Dir)]) a = Some Dir" using None by (simp add: map_add_def)
      then show ?thesis using mkdirs_lookup [OF run, of a] True by simp
    next
      case False
      then show ?thesis using Cons.IH [OF run] Cons.prems(2) by simp
    qed
  next
    case (Some n)
    show ?thesis
    proof (cases n)
      case (File b)
      then show ?thesis using Some Cons.prems by simp
    next
      case Dir
      then have run: "mkdirs qs fs = Inr fs'" using Some Cons.prems by simp
      show ?thesis
      proof (cases "q = a")
        case True
        then show ?thesis using mkdirs_lookup [OF run, of a] Some Dir by simp
      next
        case False
        then show ?thesis using Cons.IH [OF run] Cons.prems(2) by simp
      qed
    qed
  qed
qed

lemma map_of_RemoveAll:
  "map_of (RemoveAll p fs) q = (if isUnder p q then None else map_of fs q)"
  by (induction fs) (auto simp: RemoveAll_def)

subsection \<open>The staging directory is removed on every path\<close>

lemma TempDir_fresh:
  "TempDir E dir pre fs = Inr (p, fs1) \<Longrightarrow>
   map_of fs p = None \<and> map_of fs1 p = Some Dir \<and> fs1 = fs @ [(p, Dir)]"
  by (auto simp: TempDir_def Let_def map_add_def find_Some_iff split: if_splits option.splits)

lemma removed_after_defer:
  "\<forall>q. isUnder tmpDir q \<longrightarrow> map_of (files (w\<lparr>files := RemoveAll tmpDir (files w)\<rparr>)) q = None"
  by (simp add: map_of_RemoveAll)

lemma local_pass_cleanup:
  assumes "generateLocalProtos E w = (r, w')"
  shows "case TempDir E (repoRoot E) ''tmp'' (files w) of
           Inl e \<Rightarrow> r = Some e \<and> w' = w
         | Inr (tmpDir, fs1) \<Rightarrow>
             map_of (files w) tmpDir = None \<and> map_of fs1 tmpDir = Some Dir \<and>
             (\<forall>q. isUnder tmpDir q \<longrightarrow> map_of (files w') q = None)"
proof (cases "TempDir E (repoRoot E) ''tmp'' (files w)")
  case (Inl e)
  then show ?thesis using assms by (simp add: generateLocalProtos_def)
next
  case (Inr res)
  obtain tmpDir fs1 where res: "res = (tmpDir, fs1)" by (cases res)
  obtain r0 w0 where body: "localBody E tmpDir (w\<lparr>files := fs1\<rparr>) = (r0, w0)"
    by (cases "localBody E tmpDir (w\<lparr>files := fs1\<rparr>)")
  have "w' = w0\<lparr>files := RemoveAll tmpDir (files w0)\<rparr>"
    using assms Inr res body by (simp add: generateLocalProtos_def)
  then have "\<forall>q. isUnder tmpDir q \<longrightarrow> map_of (files w') q = None"
    using removed_after_defer by simp
  moreover have "map_of (files w) tmpDir = None \<and> map_of fs1 tmpDir = Some Dir"
    using TempDir_fresh [of E "repoRoot E" "''tmp''" "files w" tmpDir fs1] Inr res by blast
  ultimately show ?thesis using Inr res by simp
qed

lemma remote_pass_cleanup:
  assumes "generateRemoteProtos E w = (r, w')"
  shows "case TempDir E (repoRoot E) ''tmp'' (files w) of
           Inl e \<Rightarrow> r = Some e \<and> w' = w
         | Inr (tmpDir, fs1) \<Rightarrow>
             map_of (files w) tmpDir = None \<and> map_of fs1 tmpDir = Some Dir \<and>
             (\<forall>q. isUnder tmpDir q \<longrightarrow> map_of (files w') q = None)"
proof (cases "TempDir E (repoRoot E) ''tmp'' (files w)")
  case (Inl e)
  then show ?thesis using assms by (simp add: generateRemoteProtos_def)
next
  case (Inr res)
  obtain tmpDir fs1 where res: "res = (tmpDir, fs1)" by (cases res)
  obtain r0 w0 where body: "remoteBody E tmpDir (w\<lparr>files := fs1\<rparr>) = (r0, w0)"
    by (cases "remoteBody E tmpDir (w\<lparr>files := fs1\<rparr>)")
  have "w' = w0\<lparr>files := RemoveAll tmpDir (files w0)\<rparr>"
    using assms Inr res body by (simp add: generateRemoteProtos_def)
  then have "\<forall>q. isUnder tmpDir q \<longrightarrow> map_of (files w') q = None"
    using removed_after_defer by simp
  moreover have "map_of (files w) tmpDir = None \<and> map_of fs1 tmpDir = Some Dir"
    using TempDir_fresh [of E "repoRoot E" "''tmp''" "files w" tmpDir fs1] Inr res by blast
  ultimately show ?thesis using Inr res by simp
qed

text \<open>
  C8: whatever the outcome of a local or a remote pass, a panic included, the staging
  directory that the pass created (a path that did not exist before) and everything under
  it are gone when the pass ends; when the directory could not be created the pass panics
  with the state unchanged. A panic ends the run at once: a panic of a directory's
  generation or of a remote target is the outcome of the pass, without the later steps,
  and a panic of the local pass is the outcome of \<^const>\<open>main\<close>, without the remote pass.
\<close>

theorem staging_removed_on_every_path:
  "(generateLocalProtos E w = (r, w') \<longrightarrow>
      (case TempDir E (repoRoot E) ''tmp'' (files w) of
         Inl e \<Rightarrow> r = Some e \<and> w' = w
       | Inr (tmpDir, fs1) \<Rightarrow>
           map_of (files w) tmpDir = None \<and> map_of fs1 tmpDir = Some Dir \<and>
           (\<forall>q. isUnder tmpDir q \<longrightarrow> map_of (files w') q = None))) \<and>
   (generateRemoteProtos E v = (s, v') \<longrightarrow>
      (case TempDir E (repoRoot E) ''tmp'' (files v) of
         Inl e \<Rightarrow> s = Some e \<and> v' = v
       | Inr (tmpDir, fs1) \<Rightarrow>
           map_of (files v) tmpDir = None \<and> map_of fs1 tmpDir = Some Dir \<and>
           (\<forall>q. isUnder tmpDir q \<longrightarrow> map_of (files v') q = None))) \<and>
   (protoRoot E \<noteq> [] \<and> generateLocalProtos E w = (Some e1, w') \<longrightarrow> main E w = (Some e1, w')) \<and>
   (forEach (localJob E dir1) dirs u1 = (Some e2, u1') \<longrightarrow> localBody E dir1 u1 = (Some e2, u1')) \<and>
   (remoteTargets E dir2 u2 = (Some e3, u2') \<longrightarrow> remoteBody E dir2 u2 = (Some e3, u2'))"
proof (intro conjI impI)
  assume "generateLocalProtos E w = (r, w')"
  then show "case TempDir E (repoRoot E) ''tmp'' (files w) of
         Inl e \<Rightarrow> r = Some e \<and> w' = w
       | Inr (tmpDir, fs1) \<Rightarrow>
           map_of (files w) tmpDir = None \<and> map_of fs1 tmpDir = Some Dir \<and>
           (\<forall>q. isUnder tmpDir q \<longrightarrow> map_of (files w') q = None)"
    by (rule local_pass_cleanup)
next
  assume "generateRemoteProtos E v = (s, v')"
  then show "case TempDir E (repoRoot E) ''tmp'' (files v) of
         Inl e \<Rightarrow> s = Some e \<and> v' = v
       | Inr (tmpDir, fs1) \<Rightarrow>
           map_of (files v) tmpDir = None \<and> map_of fs1 tmpDir = Some Dir \<and>
           (\<forall>q. isUnder tmpDir q \<longrightarrow> map_of (files v') q = None)"
    by (rule remote_pass_cleanup)
next
  assume "protoRoot E \<noteq> [] \<and> generateLocalProtos E w = (Some e1, w')"
  then show "main E w = (Some e1, w')" by (simp add: main_def)
next
  assume "forEach (localJob E dir1) dirs u1 = (Some e2, u1')"
  then show "localBody E dir1 u1 = (Some e2, u1')" by (simp add: localBody_def)
next
  assume "remoteTargets E dir2 u2 = (Some e3, u2')"
  then show "remoteBody E dir2 u2 = (Some e3, u2')" by (simp add: remoteBody_def)
qed

lemma bare_local_pass:
  "generateLocalProtos failEnv bareWorld =
     (Some (WriteError ''/r/tmp1/cmd/protoc-gen-go/testdata/gen_test.go''), bareWorld)"
  by code_simp

lemma bare_remote_pass:
  "fst (generateRemoteProtos failEnv bareWorld) \<noteq> None \<and>
   files (snd (generateRemoteProtos failEnv bareWorld)) = files bareWorld"
  by code_simp

lemma bare_TempDir:
  "TempDir failEnv (repoRoot failEnv) ''tmp'' (files bareWorld) =
     Inr (''/r/tmp1'', [(''/r'', Dir), (''/r/tmp1'', Dir)])"
  by code_simp

lemma bare_jobs:
  "fst (forEach (localJob failEnv ''/r/tmp1'') dirs bareWorld) =
     Some (WriteError ''/r/tmp1/cmd/protoc-gen-go/testdata/gen_test.go'')"
  by code_simp

lemma bare_targets: "fst (remoteTargets failEnv ''/r/tmp1'' bareWorld) \<noteq> None"
  by code_simp

theorem staging_removed_on_every_path_witness:
  "generateLocalProtos failEnv bareWorld =
     (Some (WriteError ''/r/tmp1/cmd/protoc-gen-go/testdata/gen_test.go''), bareWorld) \<and>
   map_of (files bareWorld) ''/r/tmp1'' = None \<and>
   map_of (files bareWorld) ''/r/tmp1/cmd'' = None \<and>
   fst (generateRemoteProtos failEnv bareWorld) \<noteq> None \<and>
   map_of (files (snd (generateRemoteProtos failEnv bareWorld))) ''/r/tmp1'' = None \<and>
   main failEnv bareWorld =
     (Some (WriteError ''/r/tmp1/cmd/protoc-gen-go/testdata/gen_test.go''), bareWorld) \<and>
   localBody failEnv ''/r/tmp1'' bareWorld = forEach (localJob failEnv ''/r/tmp1'') dirs bareWorld \<and>
   remoteBody failEnv ''/r/tmp1'' bareWorld = remoteTargets failEnv ''/r/tmp1'' bareWorld"
proof -
  obtain e3 where e3: "fst (remoteTargets failEnv ''/r/tmp1'' bareWorld) = Some e3"
    using bare_targets by blast
  note inst = staging_removed_on_every_path [of failEnv bareWorld
      "Some (WriteError ''/r/tmp1/cmd/protoc-gen-go/testdata/gen_test.go'')" bareWorld
      bareWorld "fst (generateRemoteProtos failEnv bareWorld)"
      "snd (generateRemoteProtos failEnv bareWorld)"
      "WriteError ''/r/tmp1/cmd/protoc-gen-go/testdata/gen_test.go''"
      "''/r/tmp1''" bareWorld
      "WriteError ''/r/tmp1/cmd/protoc-gen-go/testdata/gen_test.go''"
      "snd (forEach (localJob failEnv ''/r/tmp1'') dirs bareWorld)"
      "''/r/tmp1''" bareWorld e3 "snd (remoteTargets failEnv ''/r/tmp1'' bareWorld)"]
  note c1 = inst [THEN conjunct1, THEN mp, OF bare_local_pass]
  note c2 = inst [THEN conjunct2, THEN conjunct1, THEN mp, OF prod.collapse [symmetric]]
  note c3 = inst [THEN conjunct2, THEN conjunct2, THEN conjunct1, THEN mp]
  note c4 = inst [THEN conjunct2, THEN conjunct2, THEN conjunct2, THEN conjunct1, THEN mp]
  note c5 = inst [THEN conjunct2, THEN conjunct2, THEN conjunct2, THEN conjunct2, THEN mp]
  have under: "isUnder ''/r/tmp1'' ''/r/tmp1''" "isUnder ''/r/tmp1'' ''/r/tmp1/cmd''"
    by (simp_all add: isUnder_def slash_def)
  have local: "map_of (files bareWorld) ''/r/tmp1'' = None"
    "map_of (files bareWorld) ''/r/tmp1/cmd'' = None"
    using c1 under by (simp_all add: bare_TempDir)
  have remote: "map_of (files (snd (generateRemoteProtos failEnv bareWorld))) ''/r/tmp1'' = None"
    using c2 under by (simp add: bare_TempDir)
  have root: "protoRoot failEnv \<noteq> []"
    by (simp add: failEnv_def exampleEnv_def)
  have m: "main failEnv bareWorld =
      (Some (WriteError ''/r/tmp1/cmd/protoc-gen-go/testdata/gen_test.go''), bareWorld)"
    using c3 root bare_local_pass by blast
  have "forEach (localJob failEnv ''/r/tmp1'') dirs bareWorld =
      (Some (WriteError ''/r/tmp1/cmd/protoc-gen-go/testdata/gen_test.go''),
       snd (forEach (localJob failEnv ''/r/tmp1'') dirs bareWorld))"
    using bare_jobs by (metis prod.collapse)
  from c4 [OF this] this
  have lb: "localBody failEnv ''/r/tmp1'' bareWorld = forEach (localJob failEnv ''/r/tmp1'') dirs bareWorld"
    by simp
  have "remoteTargets failEnv ''/r/tmp1'' bareWorld =
      (Some e3, snd (remoteTargets failEnv ''/r/tmp1'' bareWorld))"
    using e3 by (metis prod.collapse)
  from c5 [OF this] this
  have rb: "remoteBody failEnv ''/r/tmp1'' bareWorld = remoteTargets failEnv ''/r/tmp1'' bareWorld"
    by simp
  show ?thesis using bare_local_pass local remote bare_remote_pass m lb rb by blast
qed

subsection \<open>The copy of the field mask file\<close>

lemma copyFile_success:
  assumes "copyFile dstPath srcPath w = (None, w')"
  shows "\<exists>b fs1. map_of (files w) srcPath = Some (File b) \<and>
           MkdirAll (filepath_Dir dstPath) (files w) = Inr fs1 \<and>
           \<not> dirExists fs1 dstPath \<and> dirExists fs1 (filepath_Dir dstPath) \<and>
           w' = w\<lparr>files := AList.update dstPath (File b) fs1\<rparr>"
proof -
  obtain b where rd: "ReadFile srcPath (files w) = Inr b"
    using assms by (cases "ReadFile srcPath (files w)") (auto simp: copyFile_def)
  then have src: "map_of (files w) srcPath = Some (File b)"
    by (auto simp: ReadFile_def split: option.splits node.splits)
  obtain fs1 where mk: "MkdirAll (filepath_Dir dstPath) (files w) = Inr fs1"
    using assms rd by (cases "MkdirAll (filepath_Dir dstPath) (files w)") (auto simp: copyFile_def)
  obtain fs2 where wr: "WriteFile dstPath b fs1 = Inr fs2" and w': "w' = w\<lparr>files := fs2\<rparr>"
    using assms rd mk by (cases "WriteFile dstPath b fs1") (auto simp: copyFile_def)
  from wr have "\<not> dirExists fs1 dstPath \<and> dirExists fs1 (filepath_Dir dstPath) \<and>
      fs2 = AList.update dstPath (File b) fs1"
    by (auto simp: WriteFile_def split: if_splits)
  then show ?thesis using src mk w' by blast
qed

lemma MkdirAll_lookup_Some:
  "MkdirAll p fs = Inr fs' \<Longrightarrow> map_of fs q = Some x \<Longrightarrow> map_of fs' q = Some x"
  by (auto simp: MkdirAll_def mkdirs_lookup split: if_splits)

lemma fieldMask_paths_differ: "fieldMaskSrc tmpDir \<noteq> fieldMaskDst tmpDir"
  by (simp add: fieldMaskSrc_def fieldMaskDst_def filepath_Join_def)

text \<open>
  C9: once every remote target has been generated, the generator copies the field mask
  file inside the staging directory from the old location
  (\<^verbatim>\<open>google.golang.org/genproto/protobuf/field_mask\<close>) to the new one
  (\<^verbatim>\<open>google.golang.org/protobuf/internal/testprotos/fieldmaskpb\<close>): when the copy
  succeeds the new location holds the content that the old location held, whatever it
  held before, the old location keeps it, and the synchronisation follows.
\<close>

theorem field_mask_copied_after_targets:
  "(remoteTargets E tmpDir w = (None, w1) \<and>
    copyFile (fieldMaskDst tmpDir) (fieldMaskSrc tmpDir) w1 = (None, w2) \<longrightarrow>
      (\<exists>b. map_of (files w1) (fieldMaskSrc tmpDir) = Some (File b) \<and>
           map_of (files w2) (fieldMaskDst tmpDir) = Some (File b) \<and>
           map_of (files w2) (fieldMaskSrc tmpDir) = Some (File b)) \<and>
      remoteBody E tmpDir w =
        syncOutput E (repoRoot E) (filepath_Join tmpDir (modulePath E)) w2) \<and>
   fieldMaskSrc tmpDir =
     filepath_Join tmpDir ''google.golang.org/genproto/protobuf/field_mask/field_mask.pb.go'' \<and>
   fieldMaskDst tmpDir =
     filepath_Join tmpDir
       ''google.golang.org/protobuf/internal/testprotos/fieldmaskpb/field_mask.pb.go''"
proof (intro conjI impI)
  assume h: "remoteTargets E tmpDir w = (None, w1) \<and>
    copyFile (fieldMaskDst tmpDir) (fieldMaskSrc tmpDir) w1 = (None, w2)"
  then obtain b fs1 where src: "map_of (files w1) (fieldMaskSrc tmpDir) = Some (File b)"
    and mk: "MkdirAll (filepath_Dir (fieldMaskDst tmpDir)) (files w1) = Inr fs1"
    and w2: "w2 = w1\<lparr>files := AList.update (fieldMaskDst tmpDir) (File b) fs1\<rparr>"
    using copyFile_success by blast
  have "map_of fs1 (fieldMaskSrc tmpDir) = Some (File b)"
    using MkdirAll_lookup_Some [OF mk src] .
  then have "map_of (files w2) (fieldMaskSrc tmpDir) = Some (File b)"
    using w2 fieldMask_paths_differ by (simp add: update_conv')
  moreover have "map_of (files w2) (fieldMaskDst tmpDir) = Some (File b)"
    using w2 by (simp add: update_conv')
  ultimately show "\<exists>b. map_of (files w1) (fieldMaskSrc tmpDir) = Some (File b) \<and>
           map_of (files w2) (fieldMaskDst tmpDir) = Some (File b) \<and>
           map_of (files w2) (fieldMaskSrc tmpDir) = Some (File b)"
    using src by blast
  show "remoteBody E tmpDir w =
        syncOutput E (repoRoot E) (filepath_Join tmpDir (modulePath E)) w2"
    using h by (simp add: remoteBody_def)
qed (simp_all add: fieldMaskSrc_def fieldMaskDst_def)

lemma quiet_protoc:
  "toolchain E = (\<lambda>plugins cmdArgs fs. (None, fs)) \<Longrightarrow>
   protoc E plugins args w = (None, w\<lparr>calls := calls w @ [(plugins, args)]\<rparr>)"
  by (simp add: protoc_def Let_def)

lemma quiet_forEach_remote:
  "toolchain E = (\<lambda>plugins cmdArgs fs. (None, fs)) \<Longrightarrow>
   \<exists>w'. forEach (remoteStep E tmpDir) xs w = (None, w') \<and> files w' = files w \<and> stdout w' = stdout w"
proof (induction xs arbitrary: w)
  case Nil
  then show ?case by simp
next
  case (Cons a xs)
  obtain w1 where step: "remoteStep E tmpDir a w = (None, w1)"
    and same: "files w1 = files w" "stdout w1 = stdout w"
    using Cons.prems by (simp add: remoteStep_def quiet_protoc)
  obtain w' where "forEach (remoteStep E tmpDir) xs w1 = (None, w')"
    "files w' = files w1" "stdout w' = stdout w1"
    using Cons.IH [OF Cons.prems] by blast
  then show ?case using step same by simp
qed

lemma quiet_remoteTargets:
  "\<exists>w'. remoteTargets quietEnv tmpDir w = (None, w') \<and> files w' = files w \<and> stdout w' = stdout w"
  unfolding remoteTargets_def by (rule quiet_forEach_remote) (simp add: quietEnv_def)

theorem field_mask_copied_after_targets_witness:
  "\<exists>w1 w2. remoteTargets quietEnv ''/r/tmp1'' remoteWorld = (None, w1) \<and>
     copyFile (fieldMaskDst ''/r/tmp1'') (fieldMaskSrc ''/r/tmp1'') w1 = (None, w2) \<and>
     map_of (files w1) (fieldMaskDst ''/r/tmp1'') = Some (File ''stale'') \<and>
     map_of (files w2) (fieldMaskDst ''/r/tmp1'') = Some (File ''new'') \<and>
     map_of (files w2) (fieldMaskSrc ''/r/tmp1'') = Some (File ''new'')"
proof -
  obtain w1 where t: "remoteTargets quietEnv ''/r/tmp1'' remoteWorld = (None, w1)"
    and f: "files w1 = files remoteWorld"
    using quiet_remoteTargets by blast
  have c: "fst (copyFile (fieldMaskDst ''/r/tmp1'') (fieldMaskSrc ''/r/tmp1'') remoteWorld) = None"
    by code_simp
  have "copyFile (fieldMaskDst ''/r/tmp1'') (fieldMaskSrc ''/r/tmp1'') w1 =
        (case copyFile (fieldMaskDst ''/r/tmp1'') (fieldMaskSrc ''/r/tmp1'') remoteWorld of
           (r, w') \<Rightarrow> (r, w1\<lparr>files := files w'\<rparr>))"
    using f by (simp add: copyFile_def split: sum.splits)
  then obtain w2 where cp: "copyFile (fieldMaskDst ''/r/tmp1'') (fieldMaskSrc ''/r/tmp1'') w1 = (None, w2)"
    using c by (cases "copyFile (fieldMaskDst ''/r/tmp1'') (fieldMaskSrc ''/r/tmp1'') remoteWorld") auto
  have src: "map_of (files w1) (fieldMaskSrc ''/r/tmp1'') = Some (File ''new'')"
    unfolding f by code_simp
  have dst: "map_of (files w1) (fieldMaskDst ''/r/tmp1'') = Some (File ''stale'')"
    unfolding f by code_simp
  from field_mask_copied_after_targets [of quietEnv "''/r/tmp1''" remoteWorld w1 w2] t cp src
  have "map_of (files w2) (fieldMaskDst ''/r/tmp1'') = Some (File ''new'') \<and>
        map_of (files w2) (fieldMaskSrc ''/r/tmp1'') = Some (File ''new'')"
    by auto
  then show ?thesis using t cp dst by blast
qed

subsection \<open>The walk over a local directory\<close>

lemma protoc_calls:
  "protoc E plugins args w = (r, w') \<Longrightarrow> calls w' = calls w @ [(plugins, args)]"
  by (auto simp: protoc_def Let_def split: prod.splits option.splits)

lemma localStep_skip:
  "\<not> strings_HasSuffix p ''.proto'' \<or> excludeRx_MatchString p \<Longrightarrow>
   localStep E d dstDir srcDir p (sd, w) = (None, (sd, w))"
  by (simp add: localStep_def)

lemma localStep_excluded:
  "strings_HasSuffix p ''.proto'' \<Longrightarrow> \<not> excludeRx_MatchString p \<Longrightarrow>
   filepath_Rel (repoRoot E) p = Inr relPath \<Longrightarrow> filepath_Rel srcDir p = Inr srcRelPath \<Longrightarrow>
   mapBool (exclude d) relPath \<Longrightarrow>
   localStep E d dstDir srcDir p (sd, w) = (None, (List.insert (filepath_Dir srcRelPath) sd, w))"
  by (simp add: localStep_def filepath_ToSlash_def)

lemma last_localArgs: "last (localArgs E d dstDir relPath) = relPath"
  by (simp add: localArgs_def)

lemma localStep_generated:
  "strings_HasSuffix p ''.proto'' \<Longrightarrow> \<not> excludeRx_MatchString p \<Longrightarrow>
   filepath_Rel (repoRoot E) p = Inr relPath \<Longrightarrow> filepath_Rel srcDir p = Inr srcRelPath \<Longrightarrow>
   \<not> mapBool (exclude d) relPath \<Longrightarrow>
   localStep E d dstDir srcDir p (sd, w) =
     (case protoc E (if grpcPlugin d then ''go,gogrpc'' else ''go'') (localArgs E d dstDir relPath) w of
        (r, w') \<Rightarrow> (r, (List.insert (filepath_Dir srcRelPath) sd, w')))"
  by (simp add: localStep_def filepath_ToSlash_def Let_def localArgs_def)

lemma localStep_Rel_fails:
  "strings_HasSuffix p ''.proto'' \<Longrightarrow> \<not> excludeRx_MatchString p \<Longrightarrow>
   filepath_Rel (repoRoot E) p = Inl e \<or>
   (\<exists>relPath. filepath_Rel (repoRoot E) p = Inr relPath) \<and> filepath_Rel srcDir p = Inl e \<Longrightarrow>
   localStep E d dstDir srcDir p (sd, w) = (Some e, (sd, w))"
  by (auto simp: localStep_def)

lemma localStep_calls:
  assumes "localStep E d dstDir srcDir p (sd, w) = (r, (sd', w'))"
  shows "calls w' = calls w \<or>
         (\<exists>args relPath. calls w' = calls w @ [(if grpcPlugin d then ''go,gogrpc'' else ''go'', args)] \<and>
            last args = relPath \<and> strings_HasSuffix p ''.proto'' \<and> \<not> excludeRx_MatchString p \<and>
            filepath_Rel (repoRoot E) p = Inr relPath \<and> \<not> mapBool (exclude d) relPath)"
proof (cases "\<not> strings_HasSuffix p ''.proto'' \<or> excludeRx_MatchString p")
  case True
  then show ?thesis using assms by (simp add: localStep_skip)
next
  case sel: False
  show ?thesis
  proof (cases "filepath_Rel (repoRoot E) p")
    case (Inl e)
    then show ?thesis using assms sel localStep_Rel_fails [of p E e srcDir d dstDir sd w] by simp
  next
    case rel: (Inr relPath)
    show ?thesis
    proof (cases "filepath_Rel srcDir p")
      case (Inl e)
      then show ?thesis using assms sel rel localStep_Rel_fails [of p E e srcDir d dstDir sd w] by simp
    next
      case srel: (Inr srcRelPath)
      show ?thesis
      proof (cases "mapBool (exclude d) relPath")
        case True
        then show ?thesis using assms sel rel srel localStep_excluded [of p E relPath srcDir srcRelPath d dstDir sd w]
          by simp
      next
        case False
        define args where "args = localArgs E d dstDir relPath"
        have args: "last args = relPath"
          "localStep E d dstDir srcDir p (sd, w) =
            (case protoc E (if grpcPlugin d then ''go,gogrpc'' else ''go'') args w of
               (r, w') \<Rightarrow> (r, (List.insert (filepath_Dir srcRelPath) sd, w')))"
          using localStep_generated [of p E relPath srcDir srcRelPath d dstDir sd w] sel rel srel False
          by (simp_all add: args_def last_localArgs)
        obtain r0 w0 where pr: "protoc E (if grpcPlugin d then ''go,gogrpc'' else ''go'') args w = (r0, w0)"
          by (metis prod.exhaust)
        then have "w' = w0" using assms args(2) by simp
        then have "calls w' = calls w @ [(if grpcPlugin d then ''go,gogrpc'' else ''go'', args)]"
          using protoc_calls [OF pr] by simp
        then show ?thesis using args(1) sel rel False by blast
      qed
    qed
  qed
qed





lemma walk_calls:
  assumes "forEach (localStep E d dstDir srcDir) ps (sd, w) = (r, (sd', w'))"
  shows "\<exists>new. calls w' = calls w @ new \<and> (\<forall>c \<in> set new. callOk E d ps c)"
proof -
  let ?P = "\<lambda>s. \<exists>new. calls (snd s) = calls w @ new \<and> (\<forall>c \<in> set new. callOk E d ps c)"
  have "?P (sd', w')"
  proof (rule forEach_invariant [OF assms, where P = ?P])
    show "?P (sd, w)" by simp
  next
    fix x t r' t'
    assume x: "x \<in> set ps" and P: "?P t" and step: "localStep E d dstDir srcDir x t = (r', t')"
    obtain sd0 w0 where t: "t = (sd0, w0)" by (cases t)
    obtain sd1 w1 where t': "t' = (sd1, w1)" by (cases t')
    from P t obtain new where new: "calls w0 = calls w @ new" "\<forall>c \<in> set new. callOk E d ps c"
      by auto
    from localStep_calls [OF step [unfolded t t']]
    show "?P t'"
    proof
      assume "calls w1 = calls w0"
      then show ?thesis using new t' by auto
    next
      assume "\<exists>args relPath. calls w1 = calls w0 @ [(if grpcPlugin d then ''go,gogrpc'' else ''go'', args)] \<and>
            last args = relPath \<and> strings_HasSuffix x ''.proto'' \<and> \<not> excludeRx_MatchString x \<and>
            filepath_Rel (repoRoot E) x = Inr relPath \<and> \<not> mapBool (exclude d) relPath"
      then obtain args where c: "calls w1 = calls w0 @ [(if grpcPlugin d then ''go,gogrpc'' else ''go'', args)]"
        and ok: "strings_HasSuffix x ''.proto''" "\<not> excludeRx_MatchString x"
          "filepath_Rel (repoRoot E) x = Inr (last args)" "\<not> mapBool (exclude d) (last args)"
        by blast
      have "callOk E d ps (if grpcPlugin d then ''go,gogrpc'' else ''go'', args)"
        unfolding callOk_def using x ok by auto
      then have "\<forall>c \<in> set (new @ [(if grpcPlugin d then ''go,gogrpc'' else ''go'', args)]). callOk E d ps c"
        using new(2) by auto
      moreover have "calls w1 = calls w @ (new @ [(if grpcPlugin d then ''go,gogrpc'' else ''go'', args)])"
        using c new(1) by simp
      ultimately show ?thesis using t' by (metis snd_conv)
    qed
  qed
  then show ?thesis by simp
qed

lemma genTest_calls:
  "genTest E tmpDir d subDirs w = (r, w') \<Longrightarrow> calls w' = calls w \<and> stdout w' = stdout w"
  by (auto simp: genTest_def split: option.splits sum.splits)

lemma localJob_calls:
  assumes "localJob E tmpDir d w = (r, w')"
  shows "\<exists>fs1 new. MkdirAll tmpDir (files w) = Inr fs1 \<and> calls w' = calls w @ new \<and>
           (\<forall>c \<in> set new. callOk E d (Walk (filepath_Join (repoRoot E) (path d)) fs1) c)
         \<or> (\<exists>e. MkdirAll tmpDir (files w) = Inl e \<and> w' = w)"
proof (cases "MkdirAll tmpDir (files w)")
  case (Inl e)
  then show ?thesis using assms by (simp add: localJob_def)
next
  case (Inr fs1)
  obtain r1 sd w2 where walk: "localWalk E d tmpDir (w\<lparr>files := fs1\<rparr>) = (r1, (sd, w2))"
    by (metis prod.exhaust)
  then have "forEach (localStep E d tmpDir (filepath_Join (repoRoot E) (path d)))
      (Walk (filepath_Join (repoRoot E) (path d)) fs1) ([], w\<lparr>files := fs1\<rparr>) = (r1, (sd, w2))"
    by (simp add: localWalk_def filepath_FromSlash_def Let_def)
  from walk_calls [OF this] obtain new where new: "calls w2 = calls w @ new"
    "\<forall>c \<in> set new. callOk E d (Walk (filepath_Join (repoRoot E) (path d)) fs1) c"
    by auto
  have "calls w' = calls w2"
    using assms Inr walk genTest_calls [of E tmpDir d sd w2]
    by (cases r1; cases "genTest E tmpDir d sd w2") (auto simp: localJob_def split: if_splits)
  then show ?thesis using Inr new by auto
qed

lemma not_proto_suffix_dot: "\<not> strings_HasSuffix (b @ [slash] @ ''.'') ''.proto''"
  by (auto simp: strings_HasSuffix_def suffix_def slash_def append_eq_append_conv2 Cons_eq_append_conv
      append_eq_Cons_conv)

lemma Rel_under:
  "filepath_Rel b p = Inr r \<Longrightarrow> p = b \<and> r = ''.'' \<or> p = b @ [slash] @ r"
  by (auto simp: filepath_Rel_def prefix_def split: if_splits)

lemma Rel_inject:
  assumes "filepath_Rel b p = Inr r" "filepath_Rel b p' = Inr r"
    and "strings_HasSuffix p ''.proto''" "strings_HasSuffix p' ''.proto''"
  shows "p = p'"
  using Rel_under [OF assms(1)] Rel_under [OF assms(2)] assms(3,4) not_proto_suffix_dot [of b]
  by auto






text \<open>The example directory, generated.\<close>

lemma example_job_run:
  "localJob exampleEnv ''/r/tmp1'' exampleJob exampleWorld = (None, exampleJobWorld)"
  by code_simp

lemma example_mkdir: "MkdirAll ''/r/tmp1'' (files exampleWorld) = Inr (files exampleWorld)"
  by code_simp

lemma example_walk:
  "Walk (filepath_Join (repoRoot exampleEnv) (path exampleJob)) (files exampleWorld) =
     [''/r/x/testdata'',
      ''/r/x/testdata/a'', ''/r/x/testdata/a/one.proto'',
      ''/r/x/testdata/b'', ''/r/x/testdata/b/skip.proto'',
      ''/r/x/testdata/legacy'',
      ''/r/x/testdata/legacy/proto2_20160225_2fc053c5'',
      ''/r/x/testdata/legacy/proto2_20160225_2fc053c5/old.proto'']"
  by code_simp

lemma example_calls:
  "calls exampleWorld = []"
  "calls exampleJobWorld =
     [(''go,gogrpc'', localArgs exampleEnv exampleJob ''/r/tmp1'' ''x/testdata/a/one.proto'')]"
  by (simp_all add: exampleWorld_def exampleJobWorld_def)

text \<open>
  C1, as the code has it: every toolchain run that the generation of a directory records
  is given the backend names \<^verbatim>\<open>go\<close> when the grpc flag of the directory is unset and
  \<^verbatim>\<open>go,gogrpc\<close> when it is set.
\<close>

theorem backend_names_of_job:
  "localJob E tmpDir d w = (r, w') \<longrightarrow>
     (\<exists>new. calls w' = calls w @ new \<and>
        (\<forall>c \<in> set new. fst c = (if grpcPlugin d then ''go,gogrpc'' else ''go'')))"
proof
  assume run: "localJob E tmpDir d w = (r, w')"
  show "\<exists>new. calls w' = calls w @ new \<and>
        (\<forall>c \<in> set new. fst c = (if grpcPlugin d then ''go,gogrpc'' else ''go''))"
  proof (cases "MkdirAll tmpDir (files w)")
    case (Inl e)
    then have "calls w' = calls w @ []" using run by (simp add: localJob_def)
    then show ?thesis by (metis empty_iff list.set(1))
  next
    case (Inr fs1)
    with localJob_calls [OF run] obtain new where "calls w' = calls w @ new"
      "\<forall>c \<in> set new. callOk E d (Walk (filepath_Join (repoRoot E) (path d)) fs1) c"
      by auto
    then show ?thesis unfolding callOk_def by blast
  qed
qed

theorem backend_names_of_job_witness:
  "map fst (calls (snd (localJob exampleEnv ''/r/tmp1'' exampleJob exampleWorld))) = [''go,gogrpc'']"
proof -
  from backend_names_of_job [of exampleEnv "''/r/tmp1''" exampleJob exampleWorld None exampleJobWorld,
      THEN mp, OF example_job_run]
  obtain new where new: "calls exampleJobWorld = calls exampleWorld @ new"
    and names: "\<forall>c \<in> set new. fst c = (if grpcPlugin exampleJob then ''go,gogrpc'' else ''go'')"
    by blast
  have "grpcPlugin exampleJob" by (simp add: exampleJob_def)
  then have "\<forall>c \<in> set (calls exampleJobWorld). fst c = ''go,gogrpc''"
    using new names by (simp add: example_calls(1))
  then have "map fst (calls exampleJobWorld) = [''go,gogrpc'']"
    by (simp add: example_calls(2))
  then show ?thesis by (simp add: example_job_run)
qed

text \<open>
  Against C1 as it is worded: for a directory with the grpc flag set, the names passed for
  its description file are not \<^verbatim>\<open>go,grpc\<close>.
\<close>

theorem backend_names_of_job_counterexample:
  "grpcPlugin exampleJob \<and>
   calls (snd (localJob exampleEnv ''/r/tmp1'' exampleJob exampleWorld)) =
     [(''go,gogrpc'', localArgs exampleEnv exampleJob ''/r/tmp1'' ''x/testdata/a/one.proto'')] \<and>
   ''go,gogrpc'' \<noteq> ''go,grpc''"
proof -
  have "grpcPlugin exampleJob" by (simp add: exampleJob_def)
  then show ?thesis by (simp add: example_job_run example_calls)
qed

text \<open>
  C4: in the generation of a directory, a description file met by the walk whose path
  matches the legacy snapshot pattern, or whose path relative to the repository root is
  in the exclude set of the directory, is the file of no toolchain run of that directory.
  What the staging directory then holds for it is the toolchain's doing, which is given
  no other file than those of the runs.
\<close>

theorem excluded_files_not_passed:
  assumes "MkdirAll tmpDir (files w) = Inr fs1"
    and "localJob E tmpDir d w = (r, w')"
    and "p \<in> set (Walk (filepath_Join (repoRoot E) (path d)) fs1)"
    and "strings_HasSuffix p ''.proto''"
    and "filepath_Rel (repoRoot E) p = Inr relPath"
    and "excludeRx_MatchString p \<or> mapBool (exclude d) (filepath_ToSlash relPath)"
  shows "\<exists>new. calls w' = calls w @ new \<and> (\<forall>c \<in> set new. last (snd c) \<noteq> relPath)"
proof -
  from localJob_calls [OF assms(2)] assms(1) obtain new where
    new: "calls w' = calls w @ new"
      "\<forall>c \<in> set new. callOk E d (Walk (filepath_Join (repoRoot E) (path d)) fs1) c"
    by auto
  have "\<forall>c \<in> set new. last (snd c) \<noteq> relPath"
  proof
    fix c assume "c \<in> set new"
    then have "callOk E d (Walk (filepath_Join (repoRoot E) (path d)) fs1) c" using new(2) by blast
    then obtain p' where p': "strings_HasSuffix p' ''.proto''" "\<not> excludeRx_MatchString p'"
        "filepath_Rel (repoRoot E) p' = Inr (last (snd c))" "\<not> mapBool (exclude d) (last (snd c))"
      unfolding callOk_def by blast
    show "last (snd c) \<noteq> relPath"
    proof
      assume eq: "last (snd c) = relPath"
      then have "p' = p" using Rel_inject [OF p'(3) _ p'(1) assms(4)] assms(5) by simp
      then show False using p'(2,4) eq assms(6) by (simp add: filepath_ToSlash_def)
    qed
  qed
  then show ?thesis using new(1) by blast
qed

theorem excluded_files_not_passed_witness:
  "last (snd (hd (calls (snd (localJob exampleEnv ''/r/tmp1'' exampleJob exampleWorld))))) \<noteq>
     ''x/testdata/legacy/proto2_20160225_2fc053c5/old.proto'' \<and>
   last (snd (hd (calls (snd (localJob exampleEnv ''/r/tmp1'' exampleJob exampleWorld))))) \<noteq>
     ''x/testdata/b/skip.proto''"
proof -
  have walked:
    "''/r/x/testdata/legacy/proto2_20160225_2fc053c5/old.proto'' \<in>
       set (Walk (filepath_Join (repoRoot exampleEnv) (path exampleJob)) (files exampleWorld))"
    "''/r/x/testdata/b/skip.proto'' \<in>
       set (Walk (filepath_Join (repoRoot exampleEnv) (path exampleJob)) (files exampleWorld))"
    by (simp_all add: example_walk)
  have suffixes:
    "strings_HasSuffix ''/r/x/testdata/legacy/proto2_20160225_2fc053c5/old.proto'' ''.proto''"
    "strings_HasSuffix ''/r/x/testdata/b/skip.proto'' ''.proto''"
    by code_simp+
  have rels:
    "filepath_Rel (repoRoot exampleEnv) ''/r/x/testdata/legacy/proto2_20160225_2fc053c5/old.proto'' =
       Inr ''x/testdata/legacy/proto2_20160225_2fc053c5/old.proto''"
    "filepath_Rel (repoRoot exampleEnv) ''/r/x/testdata/b/skip.proto'' = Inr ''x/testdata/b/skip.proto''"
    by code_simp+
  have legacy: "excludeRx_MatchString ''/r/x/testdata/legacy/proto2_20160225_2fc053c5/old.proto''"
    by code_simp
  have excluded: "mapBool (exclude exampleJob) (filepath_ToSlash ''x/testdata/b/skip.proto'')"
    by code_simp
  from excluded_files_not_passed [OF example_mkdir example_job_run walked(1) suffixes(1) rels(1)] legacy
  have "\<forall>c \<in> set (calls exampleJobWorld).
          last (snd c) \<noteq> ''x/testdata/legacy/proto2_20160225_2fc053c5/old.proto''"
    by (auto simp: example_calls(1))
  moreover
  from excluded_files_not_passed [OF example_mkdir example_job_run walked(2) suffixes(2) rels(2)] excluded
  have "\<forall>c \<in> set (calls exampleJobWorld). last (snd c) \<noteq> ''x/testdata/b/skip.proto''"
    by (auto simp: example_calls(1))
  ultimately show ?thesis by (simp add: example_job_run example_calls(2))
qed





subsection \<open>Applying a staged tree\<close>

lemma isUnder_refl: "isUnder root root"
  by (simp add: isUnder_def)

lemma dirPrefixes_prefix:
  "q \<in> set (dirPrefixes acc cs) \<Longrightarrow> prefix (q @ [slash]) (acc @ cs)"
proof (induction cs arbitrary: acc)
  case Nil
  then show ?case by simp
next
  case (Cons c cs)
  from Cons.prems have "(c = slash \<and> acc \<noteq> [] \<and> q = acc) \<or> q \<in> set (dirPrefixes (acc @ [c]) cs)"
    by (auto split: if_splits)
  then show ?case
  proof
    assume "c = slash \<and> acc \<noteq> [] \<and> q = acc"
    then show ?thesis by simp
  next
    assume "q \<in> set (dirPrefixes (acc @ [c]) cs)"
    from Cons.IH [OF this] show ?thesis by simp
  qed
qed

lemma Dir_prefix:
  assumes "filepath_Dir d = x" "x \<noteq> ''.''" "x \<noteq> [slash]"
  shows "prefix (x @ [slash]) d"
proof -
  define r where "r = dropWhile (\<lambda>c. c \<noteq> slash) (rev d)"
  have x: "x = butlast (rev r)" and ne: "r \<noteq> []"
    using assms unfolding filepath_Dir_def r_def Let_def by (auto split: if_splits)
  have "hd r = slash" using ne hd_dropWhile [of "\<lambda>c. c \<noteq> slash" "rev d"] unfolding r_def by auto
  then have "last (rev r) = slash" using ne by (simp add: last_rev)
  then have "rev r = x @ [slash]" using x ne by (metis append_butlast_last_id rev_is_Nil_conv)
  moreover have "rev d = takeWhile (\<lambda>c. c \<noteq> slash) (rev d) @ r"
    unfolding r_def by simp
  then have "d = rev r @ rev (takeWhile (\<lambda>c. c \<noteq> slash) (rev d))"
    by (metis rev_append rev_rev_ident)
  ultimately show ?thesis by (metis prefixI)
qed

lemma mkChain_prefix: "q \<in> set (mkChain d) \<Longrightarrow> prefix (q @ [slash]) d"
proof -
  assume q: "q \<in> set (mkChain d)"
  define x where "x = filepath_Dir d"
  have nx: "x \<noteq> ''.''" "x \<noteq> [slash]" and cases: "q \<in> set (dirPrefixes [] x) \<or> q = x"
    using q unfolding mkChain_def x_def Let_def by (auto split: if_splits)
  have px: "prefix (x @ [slash]) d" using Dir_prefix [OF x_def [symmetric] nx] .
  from cases show ?thesis
  proof
    assume "q \<in> set (dirPrefixes [] x)"
    then have "prefix (q @ [slash]) x" using dirPrefixes_prefix [of q "[]" x] by simp
    then show ?thesis using px by (meson prefix_order.trans prefix_prefix)
  next
    assume "q = x"
    then show ?thesis using px by simp
  qed
qed

lemma mkChain_under: "q \<in> set (mkChain d) \<Longrightarrow> isUnder root q \<Longrightarrow> isUnder root d"
proof -
  assume q: "q \<in> set (mkChain d)" and u: "isUnder root q"
  have p: "prefix (q @ [slash]) d" using mkChain_prefix [OF q] .
  from u have "q = root \<or> prefix (root @ [slash]) q" by (simp add: isUnder_def)
  then show ?thesis
  proof
    assume "q = root"
    then show ?thesis using p by (simp add: isUnder_def)
  next
    assume "prefix (root @ [slash]) q"
    then have "prefix (root @ [slash]) (q @ [slash])" by (simp add: prefix_prefix)
    then show ?thesis using p unfolding isUnder_def by (meson prefix_order.trans)
  qed
qed

lemma MkdirAll_mkChain: "MkdirAll (filepath_Dir d) fs = mkdirs (mkChain d) fs"
  by (simp add: MkdirAll_def mkChain_def Let_def)

lemma Walk_under: "p \<in> set (Walk root fs) \<Longrightarrow> isUnder root p"
  by (auto simp: Walk_def isUnder_refl split: if_splits)

lemma sameUnder_refl: "sameUnder root fs fs"
  by (simp add: sameUnder_def)

lemma sameUnder_trans: "sameUnder root a b \<Longrightarrow> sameUnder root b c \<Longrightarrow> sameUnder root a c"
  by (simp add: sameUnder_def)

lemma Walk_sameUnder: "sameUnder root fs fs' \<Longrightarrow> Walk root fs' = Walk root fs"
  by (simp add: Walk_def sameUnder_def isUnder_refl)

lemma mkdirs_sameUnder:
  assumes "mkdirs qs fs = Inr fs'" and "\<forall>q \<in> set qs. \<not> isUnder root q"
  shows "sameUnder root fs fs'"
proof -
  obtain extra where k: "map fst fs' = map fst fs @ extra" "set extra \<subseteq> set qs"
    using mkdirs_keys [OF assms(1)] by blast
  have "filter (isUnder root) extra = []" using k(2) assms(2) by (auto simp: filter_empty_conv)
  then have "filter (isUnder root) (map fst fs') = filter (isUnder root) (map fst fs)"
    using k(1) by simp
  moreover have "\<forall>p. isUnder root p \<longrightarrow> map_of fs' p = map_of fs p"
    using mkdirs_lookup [OF assms(1)] assms(2) by auto
  ultimately show ?thesis by (simp add: sameUnder_def)
qed

lemma update_sameUnder:
  assumes "\<not> isUnder root d"
  shows "sameUnder root fs (AList.update d v fs)"
proof -
  have "filter (isUnder root) (map fst (AList.update d v fs)) = filter (isUnder root) (map fst fs)"
    using assms by (simp add: update_keys)
  moreover have "\<forall>p. isUnder root p \<longrightarrow> map_of (AList.update d v fs) p = map_of fs p"
    using assms by (auto simp: update_conv')
  ultimately show ?thesis by (simp add: sameUnder_def)
qed

lemma forEach_None_invariant:
  assumes "forEach f xs s = (None, s')" and "P s"
    and "\<And>x t t'. x \<in> set xs \<Longrightarrow> P t \<Longrightarrow> f x t = (None, t') \<Longrightarrow> P t'"
  shows "P s'"
  using assms
proof (induction xs arbitrary: s)
  case Nil
  then show ?case by simp
next
  case (Cons x xs)
  from Cons.prems(1) [THEN forEach_Cons_None [THEN iffD1]]
  obtain s1 where step: "f x s = (None, s1)" and rest: "forEach f xs s1 = (None, s')"
    by blast
  have "P s1" using Cons.prems(3) [OF _ Cons.prems(2) step] by simp
  then show ?case using Cons.IH [OF rest] Cons.prems(3) by (metis list.set_intros(2))
qed

lemma copyFile_shape:
  assumes "copyFile d p w = (r, w')"
  shows "stdout w' = stdout w \<and> calls w' = calls w \<and>
         (files w' = files w \<or>
          (\<exists>b fs1. map_of (files w) p = Some (File b) \<and> mkdirs (mkChain d) (files w) = Inr fs1 \<and>
             (files w' = fs1 \<or>
              r = None \<and> \<not> dirExists fs1 d \<and> dirExists fs1 (filepath_Dir d) \<and>
              files w' = AList.update d (File b) fs1)))"
proof (cases "ReadFile p (files w)")
  case (Inl e)
  then show ?thesis using assms by (simp add: copyFile_def)
next
  case (Inr b)
  then have src: "map_of (files w) p = Some (File b)"
    by (auto simp: ReadFile_def split: option.splits node.splits)
  show ?thesis
  proof (cases "mkdirs (mkChain d) (files w)")
    case (Inl e)
    then show ?thesis using assms Inr by (simp add: copyFile_def MkdirAll_mkChain)
  next
    case mk: (Inr fs1)
    show ?thesis
    proof (cases "WriteFile d b fs1")
      case (Inl e)
      then have "w' = w\<lparr>files := fs1\<rparr>" using assms Inr mk by (simp add: copyFile_def MkdirAll_mkChain)
      then show ?thesis using src mk by auto
    next
      case wr: (Inr fs2)
      then have "r = None" "w' = w\<lparr>files := fs2\<rparr>"
        using assms Inr mk by (simp_all add: copyFile_def MkdirAll_mkChain)
      moreover from wr have "\<not> dirExists fs1 d \<and> dirExists fs1 (filepath_Dir d) \<and>
          fs2 = AList.update d (File b) fs1"
        by (auto simp: WriteFile_def split: if_splits)
      ultimately show ?thesis using src mk by auto
    qed
  qed
qed

lemma copyFile_None:
  assumes "copyFile d p w = (None, w')"
  shows "\<exists>b fs1. map_of (files w) p = Some (File b) \<and> mkdirs (mkChain d) (files w) = Inr fs1 \<and>
           \<not> dirExists fs1 d \<and> dirExists fs1 (filepath_Dir d) \<and>
           w' = w\<lparr>files := AList.update d (File b) fs1\<rparr>"
  using copyFile_success [OF assms] by (simp add: MkdirAll_mkChain)

lemma copyFile_frame:
  assumes "copyFile d p w = (r, w')" and "\<not> isUnder root d"
  shows "sameUnder root (files w) (files w')"
proof -
  have chain: "\<forall>q \<in> set (mkChain d). \<not> isUnder root q"
    using assms(2) mkChain_under by blast
  from copyFile_shape [OF assms(1)]
  have "files w' = files w \<or>
          (\<exists>b fs1. mkdirs (mkChain d) (files w) = Inr fs1 \<and>
             (files w' = fs1 \<or> files w' = AList.update d (File b) fs1))"
    by blast
  then show ?thesis
  proof
    assume "files w' = files w"
    then show ?thesis by (simp add: sameUnder_refl)
  next
    assume "\<exists>b fs1. mkdirs (mkChain d) (files w) = Inr fs1 \<and>
             (files w' = fs1 \<or> files w' = AList.update d (File b) fs1)"
    then obtain b fs1 where mk: "mkdirs (mkChain d) (files w) = Inr fs1"
      and c: "files w' = fs1 \<or> files w' = AList.update d (File b) fs1" by blast
    have a: "sameUnder root (files w) fs1" using mkdirs_sameUnder [OF mk chain] .
    have b: "sameUnder root fs1 (AList.update d (File b) fs1)"
      using update_sameUnder [OF assms(2)] .
    from c show ?thesis using a sameUnder_trans [OF a b] by auto
  qed
qed

lemma copyFile_keeps_kinds:
  assumes "copyFile d p w = (None, w')"
  shows "(map_of (files w) q = Some Dir \<longrightarrow> map_of (files w') q = Some Dir) \<and>
         ((\<exists>b. map_of (files w) q = Some (File b)) \<longrightarrow> (\<exists>b. map_of (files w') q = Some (File b)))"
proof -
  from copyFile_None [OF assms] obtain b fs1 where
    mk: "mkdirs (mkChain d) (files w) = Inr fs1" and nd: "\<not> dirExists fs1 d"
    and w': "w' = w\<lparr>files := AList.update d (File b) fs1\<rparr>" by blast
  have l1: "\<And>x. map_of (files w) q = Some x \<Longrightarrow> map_of fs1 q = Some x"
    using mkdirs_lookup [OF mk, of q] by simp
  have notdir: "map_of fs1 d \<noteq> Some Dir" using nd by (simp add: dirExists_def)
  show ?thesis
  proof (intro conjI impI)
    assume "map_of (files w) q = Some Dir"
    then have "map_of fs1 q = Some Dir" by (rule l1)
    moreover from this have "q \<noteq> d" using notdir by auto
    ultimately show "map_of (files w') q = Some Dir" using w' by (simp add: update_conv')
  next
    assume "\<exists>b. map_of (files w) q = Some (File b)"
    then obtain c where "map_of fs1 q = Some (File c)" using l1 by blast
    then show "\<exists>b. map_of (files w') q = Some (File b)" using w' by (simp add: update_conv')
  qed
qed

lemma copyFile_keeps_settled:
  assumes "copyFile d p w = (None, w')" and "settled (files w) x"
  shows "settled (files w') x"
  using assms(2) copyFile_keeps_kinds [OF assms(1)] unfolding settled_def by blast

lemma copyFile_settles:
  assumes "copyFile d p w = (None, w')"
  shows "settled (files w') d"
proof -
  from copyFile_None [OF assms] obtain b fs1 where
    mk: "mkdirs (mkChain d) (files w) = Inr fs1" and nd: "\<not> dirExists fs1 d"
    and w': "w' = w\<lparr>files := AList.update d (File b) fs1\<rparr>" by blast
  have notdir: "map_of fs1 d \<noteq> Some Dir" "d \<noteq> ''.''" "d \<noteq> [slash]"
    using nd by (simp_all add: dirExists_def)
  have "\<forall>q \<in> set (mkChain d). map_of (files w') q = Some Dir"
  proof
    fix q assume q: "q \<in> set (mkChain d)"
    have "map_of fs1 q = Some Dir" using mkdirs_no_file [OF mk q] .
    moreover from this have "q \<noteq> d" using notdir(1) by auto
    ultimately show "map_of (files w') q = Some Dir" using w' by (simp add: update_conv')
  qed
  moreover have "map_of (files w') d = Some (File b)" using w' by (simp add: update_conv')
  ultimately show ?thesis using notdir(2,3) by (auto simp: settled_def)
qed

lemma settled_dirExists: "settled fs d \<Longrightarrow> dirExists fs (filepath_Dir d) \<and> \<not> dirExists fs d"
proof -
  assume s: "settled fs d"
  have "\<not> dirExists fs d" using s by (auto simp: settled_def dirExists_def)
  moreover have "dirExists fs (filepath_Dir d)"
  proof (cases "filepath_Dir d = ''.'' \<or> filepath_Dir d = [slash]")
    case True
    then show ?thesis by (auto simp: dirExists_def)
  next
    case False
    then have "filepath_Dir d \<in> set (mkChain d)" by (simp add: mkChain_def Let_def)
    then show ?thesis using s by (simp add: settled_def dirExists_def)
  qed
  ultimately show ?thesis by simp
qed

lemma copyFile_replay:
  assumes "settled (files w) d" and "map_of (files w) p = Some (File b)"
  shows "copyFile d p w = (None, w\<lparr>files := AList.update d (File b) (files w)\<rparr>)"
proof -
  have rd: "ReadFile p (files w) = Inr b" using assms(2) by (simp add: ReadFile_def)
  have mk: "MkdirAll (filepath_Dir d) (files w) = Inr (files w)"
    using assms(1) by (simp add: MkdirAll_mkChain settled_def mkdirs_all_dirs)
  have wr: "WriteFile d b (files w) = Inr (AList.update d (File b) (files w))"
    using settled_dirExists [OF assms(1)] by (simp add: WriteFile_def)
  show ?thesis by (simp add: copyFile_def rd mk wr)
qed

lemma syncStep_skip: "\<not> syncMatch p \<Longrightarrow> syncStep E dstDir srcDir p w = (None, w)"
  by (simp add: syncStep_def syncMatch_def)

lemma syncStep_apply:
  "run E \<Longrightarrow> syncMatch p \<Longrightarrow> filepath_Rel srcDir p = Inr rel \<Longrightarrow>
   syncStep E dstDir srcDir p w =
     copyFile (filepath_Join dstDir rel) p (w\<lparr>stdout := stdout w @ [''# '' @ rel]\<rparr>)"
  by (auto simp: syncStep_def syncMatch_def Let_def)

lemma syncStep_Rel_fails:
  "syncMatch p \<Longrightarrow> filepath_Rel srcDir p = Inl e \<Longrightarrow> syncStep E dstDir srcDir p w = (Some e, w)"
  by (simp add: syncStep_def syncMatch_def)


lemma syncStep_None:
  assumes "run E" and "syncStep E dstDir srcDir p w = (None, w')"
  shows "(\<not> syncMatch p \<and> w' = w) \<or>
         (syncMatch p \<and> (\<exists>rel. filepath_Rel srcDir p = Inr rel \<and>
            copyFile (filepath_Join dstDir rel) p (w\<lparr>stdout := stdout w @ [''# '' @ rel]\<rparr>) = (None, w')))"
proof (cases "syncMatch p")
  case False
  then show ?thesis using assms(2) by (simp add: syncStep_skip)
next
  case True
  show ?thesis
  proof (cases "filepath_Rel srcDir p")
    case (Inl e)
    then show ?thesis using assms(2) True by (simp add: syncStep_Rel_fails)
  next
    case (Inr rel)
    then show ?thesis using assms True by (simp add: syncStep_apply)
  qed
qed

lemma syncStep_frame:
  assumes "run E" and "syncStep E dstDir srcDir p w = (r, w')"
    and "syncMatch p \<longrightarrow> (\<forall>rel. filepath_Rel srcDir p = Inr rel \<longrightarrow> \<not> isUnder root (filepath_Join dstDir rel))"
  shows "sameUnder root (files w) (files w')"
proof (cases "syncMatch p")
  case False
  then show ?thesis using assms(2) by (simp add: syncStep_skip sameUnder_refl)
next
  case True
  show ?thesis
  proof (cases "filepath_Rel srcDir p")
    case (Inl e)
    then show ?thesis using assms(2) True by (simp add: syncStep_Rel_fails sameUnder_refl)
  next
    case (Inr rel)
    then have "copyFile (filepath_Join dstDir rel) p (w\<lparr>stdout := stdout w @ [''# '' @ rel]\<rparr>) = (r, w')"
      using assms(1,2) True by (simp add: syncStep_apply)
    from copyFile_frame [OF this] assms(3) True Inr show ?thesis by simp
  qed
qed

lemma apart_Cons: "apart dstDir srcDir (p # ps) \<Longrightarrow> apart dstDir srcDir ps"
  by (simp add: apart_def)

lemma apart_step:
  "apart dstDir srcDir ps \<Longrightarrow> p \<in> set ps \<Longrightarrow>
   syncMatch p \<longrightarrow> (\<forall>rel. filepath_Rel srcDir p = Inr rel \<longrightarrow> \<not> isUnder srcDir (filepath_Join dstDir rel))"
  by (simp add: apart_def)

lemma pass_frame:
  assumes "run E" and "apart dstDir srcDir ps"
    and "forEach (syncStep E dstDir srcDir) ps w = (r, w')"
  shows "sameUnder srcDir (files w) (files w')"
proof (rule forEach_invariant [OF assms(3), where P = "\<lambda>t. sameUnder srcDir (files w) (files t)"])
  show "sameUnder srcDir (files w) (files w)" by (rule sameUnder_refl)
next
  fix x t r' t'
  assume x: "x \<in> set ps" and P: "sameUnder srcDir (files w) (files t)"
    and step: "syncStep E dstDir srcDir x t = (r', t')"
  from syncStep_frame [OF assms(1) step apart_step [OF assms(2) x]]
  show "sameUnder srcDir (files w) (files t')" using P sameUnder_trans by blast
qed

lemma syncReports_Cons:
  "syncReports srcDir (p # ps) =
     (if syncMatch p then (case filepath_Rel srcDir p of Inr rel \<Rightarrow> [''# '' @ rel] | Inl e \<Rightarrow> []) else []) @
     syncReports srcDir ps"
  by (simp add: syncReports_def)

lemma step_report:
  assumes "run E" and "syncStep E dstDir srcDir p w = (None, w')"
  shows "stdout w' = stdout w @ syncReports srcDir [p] \<and> calls w' = calls w"
proof -
  from syncStep_None [OF assms] show ?thesis
  proof
    assume "\<not> syncMatch p \<and> w' = w"
    then show ?thesis by (simp add: syncReports_def)
  next
    assume "syncMatch p \<and> (\<exists>rel. filepath_Rel srcDir p = Inr rel \<and>
            copyFile (filepath_Join dstDir rel) p (w\<lparr>stdout := stdout w @ [''# '' @ rel]\<rparr>) = (None, w'))"
    then obtain rel where m: "syncMatch p" and rel: "filepath_Rel srcDir p = Inr rel"
      and c: "copyFile (filepath_Join dstDir rel) p (w\<lparr>stdout := stdout w @ [''# '' @ rel]\<rparr>) = (None, w')"
      by blast
    from copyFile_shape [OF c] show ?thesis using m rel by (simp add: syncReports_def)
  qed
qed

lemma pass_reports:
  assumes "run E"
  shows "forEach (syncStep E dstDir srcDir) ps w = (None, w') \<Longrightarrow>
         stdout w' = stdout w @ syncReports srcDir ps \<and> calls w' = calls w"
proof (induction ps arbitrary: w)
  case Nil
  then show ?case by (simp add: syncReports_def)
next
  case (Cons p ps)
  from Cons.prems [THEN forEach_Cons_None [THEN iffD1]]
  obtain w1 where step: "syncStep E dstDir srcDir p w = (None, w1)"
    and rest: "forEach (syncStep E dstDir srcDir) ps w1 = (None, w')" by blast
  from step_report [OF assms step] Cons.IH [OF rest]
  show ?case by (simp add: syncReports_def)
qed

lemma step_keeps_settled:
  assumes "run E" and "syncStep E dstDir srcDir p w = (None, w')" and "settled (files w) x"
  shows "settled (files w') x"
proof -
  from syncStep_None [OF assms(1,2)] show ?thesis
  proof
    assume "\<not> syncMatch p \<and> w' = w"
    then show ?thesis using assms(3) by simp
  next
    assume "syncMatch p \<and> (\<exists>rel. filepath_Rel srcDir p = Inr rel \<and>
            copyFile (filepath_Join dstDir rel) p (w\<lparr>stdout := stdout w @ [''# '' @ rel]\<rparr>) = (None, w'))"
    then obtain rel where
      c: "copyFile (filepath_Join dstDir rel) p (w\<lparr>stdout := stdout w @ [''# '' @ rel]\<rparr>) = (None, w')"
      by blast
    from copyFile_keeps_settled [OF c] assms(3) show ?thesis by simp
  qed
qed

lemma pass_keeps_settled:
  assumes "run E" and "forEach (syncStep E dstDir srcDir) ps w = (None, w')" and "settled (files w) x"
  shows "settled (files w') x"
  by (rule forEach_None_invariant [OF assms(2), where P = "\<lambda>t. settled (files t) x"])
     (use assms(1,3) step_keeps_settled in blast)+

lemma pass_settles:
  assumes "run E"
  shows "forEach (syncStep E dstDir srcDir) ps w = (None, w') \<Longrightarrow>
         \<forall>p \<in> set ps. syncMatch p \<longrightarrow> (\<exists>d. syncDst dstDir srcDir p = Some d \<and> settled (files w') d)"
proof (induction ps arbitrary: w)
  case Nil
  then show ?case by simp
next
  case (Cons p ps)
  from Cons.prems [THEN forEach_Cons_None [THEN iffD1]]
  obtain w1 where step: "syncStep E dstDir srcDir p w = (None, w1)"
    and rest: "forEach (syncStep E dstDir srcDir) ps w1 = (None, w')" by blast
  have "syncMatch p \<longrightarrow> (\<exists>d. syncDst dstDir srcDir p = Some d \<and> settled (files w') d)"
  proof
    assume m: "syncMatch p"
    with syncStep_None [OF assms step] obtain rel where rel: "filepath_Rel srcDir p = Inr rel"
      and c: "copyFile (filepath_Join dstDir rel) p (w\<lparr>stdout := stdout w @ [''# '' @ rel]\<rparr>) = (None, w1)"
      by blast
    have "settled (files w1) (filepath_Join dstDir rel)" using copyFile_settles [OF c] .
    then have "settled (files w') (filepath_Join dstDir rel)"
      using pass_keeps_settled [OF assms rest] by blast
    then show "\<exists>d. syncDst dstDir srcDir p = Some d \<and> settled (files w') d"
      using rel by (simp add: syncDst_def)
  qed
  then show ?case using Cons.IH [OF rest] by simp
qed

lemma pass_reads:
  assumes "run E"
  shows "apart dstDir srcDir ps \<Longrightarrow> \<forall>p \<in> set ps. isUnder srcDir p \<Longrightarrow>
         forEach (syncStep E dstDir srcDir) ps w = (None, w') \<Longrightarrow>
         \<forall>p \<in> set ps. syncMatch p \<longrightarrow> (\<exists>b. map_of (files w) p = Some (File b))"
proof (induction ps arbitrary: w)
  case Nil
  then show ?case by simp
next
  case (Cons p ps)
  from Cons.prems(3) [THEN forEach_Cons_None [THEN iffD1]]
  obtain w1 where step: "syncStep E dstDir srcDir p w = (None, w1)"
    and rest: "forEach (syncStep E dstDir srcDir) ps w1 = (None, w')" by blast
  have frame: "sameUnder srcDir (files w) (files w1)"
    using syncStep_frame [OF assms step apart_step [OF Cons.prems(1)]] by simp
  have here: "syncMatch p \<longrightarrow> (\<exists>b. map_of (files w) p = Some (File b))"
  proof
    assume "syncMatch p"
    with syncStep_None [OF assms step] obtain rel where
      c: "copyFile (filepath_Join dstDir rel) p (w\<lparr>stdout := stdout w @ [''# '' @ rel]\<rparr>) = (None, w1)"
      by blast
    from copyFile_None [OF c] show "\<exists>b. map_of (files w) p = Some (File b)" by auto
  qed
  have "\<forall>q \<in> set ps. syncMatch q \<longrightarrow> (\<exists>b. map_of (files w1) q = Some (File b))"
    using Cons.IH [OF apart_Cons [OF Cons.prems(1)] _ rest] Cons.prems(2) by simp
  then have "\<forall>q \<in> set ps. syncMatch q \<longrightarrow> (\<exists>b. map_of (files w) q = Some (File b))"
    using frame Cons.prems(2) by (simp add: sameUnder_def)
  then show ?case using here by simp
qed

lemma content_cong: "map_of fs' p = map_of fs p \<Longrightarrow> content fs' p = content fs p"
  by (simp add: content_def)

lemma lastWrite_cong:
  "\<forall>p \<in> set ps. map_of fs' p = map_of fs p \<Longrightarrow>
   lastWrite dstDir srcDir fs' ps q = lastWrite dstDir srcDir fs ps q"
proof (induction ps)
  case Nil
  then show ?case by simp
next
  case (Cons p ps)
  have "content fs' p = content fs p" using Cons.prems by (simp add: content_def)
  moreover have "lastWrite dstDir srcDir fs' ps q = lastWrite dstDir srcDir fs ps q"
    using Cons by simp
  ultimately show ?case by (metis lastWrite.simps(2))
qed

lemma lastWrite_None:
  "lastWrite dstDir srcDir fs ps q = None \<Longrightarrow>
   \<forall>p \<in> set ps. \<not> (syncMatch p \<and> syncDst dstDir srcDir p = Some q)"
  by (induction ps) (auto split: option.splits if_splits)

lemma step_keeps_other:
  assumes "run E" and "syncStep E dstDir srcDir p w = (None, w')"
    and "\<not> (syncMatch p \<and> syncDst dstDir srcDir p = Some q)" and "map_of (files w) q = Some x"
  shows "map_of (files w') q = Some x"
proof -
  from syncStep_None [OF assms(1,2)] show ?thesis
  proof
    assume "\<not> syncMatch p \<and> w' = w"
    then show ?thesis using assms(4) by simp
  next
    assume "syncMatch p \<and> (\<exists>rel. filepath_Rel srcDir p = Inr rel \<and>
            copyFile (filepath_Join dstDir rel) p (w\<lparr>stdout := stdout w @ [''# '' @ rel]\<rparr>) = (None, w'))"
    then obtain rel where m: "syncMatch p" and rel: "filepath_Rel srcDir p = Inr rel"
      and c: "copyFile (filepath_Join dstDir rel) p (w\<lparr>stdout := stdout w @ [''# '' @ rel]\<rparr>) = (None, w')"
      by blast
    have ne: "filepath_Join dstDir rel \<noteq> q" using assms(3) m rel by (simp add: syncDst_def)
    from copyFile_None [OF c] obtain b fs1 where
      mk: "mkdirs (mkChain (filepath_Join dstDir rel)) (files w) = Inr fs1"
      and w': "w' = w\<lparr>stdout := stdout w @ [''# '' @ rel],
                     files := AList.update (filepath_Join dstDir rel) (File b) fs1\<rparr>"
      by auto
    have "map_of fs1 q = Some x" using mkdirs_lookup [OF mk, of q] assms(4) by simp
    then show ?thesis using w' ne by (simp add: update_conv')
  qed
qed

lemma pass_keeps_other:
  assumes "run E" and "forEach (syncStep E dstDir srcDir) ps w = (None, w')"
    and "\<forall>p \<in> set ps. \<not> (syncMatch p \<and> syncDst dstDir srcDir p = Some q)"
    and "map_of (files w) q = Some x"
  shows "map_of (files w') q = Some x"
  by (rule forEach_None_invariant [OF assms(2), where P = "\<lambda>t. map_of (files t) q = Some x"])
     (use assms(1,3,4) step_keeps_other in blast)+

lemma pass_last_write:
  assumes "run E"
  shows "apart dstDir srcDir ps \<Longrightarrow> \<forall>p \<in> set ps. isUnder srcDir p \<Longrightarrow>
         forEach (syncStep E dstDir srcDir) ps w = (None, w') \<Longrightarrow>
         lastWrite dstDir srcDir (files w) ps q = Some b \<Longrightarrow>
         map_of (files w') q = Some (File b)"
proof (induction ps arbitrary: w)
  case Nil
  then show ?case by simp
next
  case (Cons p ps)
  from Cons.prems(3) [THEN forEach_Cons_None [THEN iffD1]]
  obtain w1 where step: "syncStep E dstDir srcDir p w = (None, w1)"
    and rest: "forEach (syncStep E dstDir srcDir) ps w1 = (None, w')" by blast
  have frame: "sameUnder srcDir (files w) (files w1)"
    using syncStep_frame [OF assms step apart_step [OF Cons.prems(1)]] by simp
  have same: "lastWrite dstDir srcDir (files w1) ps q = lastWrite dstDir srcDir (files w) ps q"
    by (rule lastWrite_cong) (use frame Cons.prems(2) in \<open>simp add: sameUnder_def\<close>)
  show ?case
  proof (cases "lastWrite dstDir srcDir (files w) ps q")
    case (Some b')
    then have "b' = b" using Cons.prems(4) by simp
    then show ?thesis
      using Cons.IH [OF apart_Cons [OF Cons.prems(1)] _ rest] Cons.prems(2) same Some by simp
  next
    case None
    then have m: "syncMatch p" and d: "syncDst dstDir srcDir p = Some q"
      and b: "b = content (files w) p"
      using Cons.prems(4) by (auto split: if_splits)
    from syncStep_None [OF assms step] m obtain rel where rel: "filepath_Rel srcDir p = Inr rel"
      and c: "copyFile (filepath_Join dstDir rel) p (w\<lparr>stdout := stdout w @ [''# '' @ rel]\<rparr>) = (None, w1)"
      by blast
    have q: "q = filepath_Join dstDir rel" using d rel by (simp add: syncDst_def)
    from copyFile_None [OF c] obtain b0 fs1 where
      src: "map_of (files w) p = Some (File b0)"
      and w1: "w1 = w\<lparr>stdout := stdout w @ [''# '' @ rel],
                     files := AList.update (filepath_Join dstDir rel) (File b0) fs1\<rparr>"
      by auto
    have "b0 = b" using b src by (simp add: content_def)
    then have "map_of (files w1) q = Some (File b)" using w1 q by (simp add: update_conv')
    then show ?thesis
      using pass_keeps_other [OF assms rest lastWrite_None [OF None]] by simp
  qed
qed

lemma update_existing_keys:
  "map_of fs d = Some x \<Longrightarrow> map fst (AList.update d v fs) = map fst fs"
  by (simp add: update_keys map_of_eq_None_iff [symmetric] del: map_of_eq_None_iff)

lemma settled_update:
  assumes "settled fs x" and "settled fs d"
  shows "settled (AList.update d (File b) fs) x"
proof -
  have "\<forall>q \<in> set (mkChain x). q \<noteq> d" using assms by (auto simp: settled_def)
  then show ?thesis using assms by (auto simp: settled_def update_conv')
qed

lemma pass_replay:
  assumes "run E"
  shows "apart dstDir srcDir ps \<Longrightarrow> \<forall>p \<in> set ps. isUnder srcDir p \<Longrightarrow>
         \<forall>p \<in> set ps. syncMatch p \<longrightarrow>
            (\<exists>d. syncDst dstDir srcDir p = Some d \<and> settled (files t) d) \<and>
            (\<exists>b. map_of (files t) p = Some (File b)) \<Longrightarrow>
         \<exists>t'. forEach (syncStep E dstDir srcDir) ps t = (None, t') \<and>
              (\<forall>q. map_of (files t') q =
                    (case lastWrite dstDir srcDir (files t) ps q of
                       Some b \<Rightarrow> Some (File b) | None \<Rightarrow> map_of (files t) q)) \<and>
              map fst (files t') = map fst (files t)"
proof (induction ps arbitrary: t)
  case Nil
  then show ?case by simp
next
  case (Cons p ps)
  have ap: "apart dstDir srcDir ps" using apart_Cons [OF Cons.prems(1)] .
  have un: "\<forall>p \<in> set ps. isUnder srcDir p" using Cons.prems(2) by simp
  show ?case
  proof (cases "syncMatch p")
    case False
    then have step: "syncStep E dstDir srcDir p t = (None, t)" by (simp add: syncStep_skip)
    have h: "\<forall>p \<in> set ps. syncMatch p \<longrightarrow>
            (\<exists>d. syncDst dstDir srcDir p = Some d \<and> settled (files t) d) \<and>
            (\<exists>b. map_of (files t) p = Some (File b))"
      using Cons.prems(3) by simp
    from Cons.IH [OF ap un h] obtain t' where
      run: "forEach (syncStep E dstDir srcDir) ps t = (None, t')"
      and look: "\<forall>q. map_of (files t') q =
                    (case lastWrite dstDir srcDir (files t) ps q of
                       Some b \<Rightarrow> Some (File b) | None \<Rightarrow> map_of (files t) q)"
      and keys: "map fst (files t') = map fst (files t)"
      by blast
    have "forEach (syncStep E dstDir srcDir) (p # ps) t = (None, t')"
      using step run by simp
    moreover have "\<forall>q. map_of (files t') q =
                    (case lastWrite dstDir srcDir (files t) (p # ps) q of
                       Some b \<Rightarrow> Some (File b) | None \<Rightarrow> map_of (files t) q)"
      using look False by (auto split: option.splits)
    ultimately show ?thesis using keys by blast
  next
    case True
    have "(\<exists>d. syncDst dstDir srcDir p = Some d \<and> settled (files t) d) \<and>
            (\<exists>b. map_of (files t) p = Some (File b))"
      using Cons.prems(3) True by simp
    then obtain d b where d: "syncDst dstDir srcDir p = Some d"
      and sd: "settled (files t) d" and src: "map_of (files t) p = Some (File b)"
      by blast
    from d obtain rel where rel: "filepath_Rel srcDir p = Inr rel" and dj: "d = filepath_Join dstDir rel"
      by (auto simp: syncDst_def split: sum.splits)
    define t1 where "t1 = t\<lparr>stdout := stdout t @ [''# '' @ rel],
                             files := AList.update d (File b) (files t)\<rparr>"
    have step: "syncStep E dstDir srcDir p t = (None, t1)"
      using copyFile_replay [of "t\<lparr>stdout := stdout t @ [''# '' @ rel]\<rparr>" d p b] sd src
      by (simp add: syncStep_apply [OF assms True rel] dj t1_def)
    have f1: "files t1 = AList.update d (File b) (files t)" by (simp add: t1_def)
    have nu: "\<not> isUnder srcDir d"
      using apart_step [OF Cons.prems(1), of p] True rel dj by simp
    have same: "\<forall>p' \<in> set ps. map_of (files t1) p' = map_of (files t) p'"
    proof
      fix p' assume "p' \<in> set ps"
      then have "p' \<noteq> d" using un nu by auto
      then show "map_of (files t1) p' = map_of (files t) p'" by (simp add: f1 update_conv')
    qed
    have hyp: "\<forall>p' \<in> set ps. syncMatch p' \<longrightarrow>
            (\<exists>d'. syncDst dstDir srcDir p' = Some d' \<and> settled (files t1) d') \<and>
            (\<exists>b'. map_of (files t1) p' = Some (File b'))"
    proof (intro ballI impI)
      fix p' assume p': "p' \<in> set ps" and m: "syncMatch p'"
      have "(\<exists>d. syncDst dstDir srcDir p' = Some d \<and> settled (files t) d) \<and>
            (\<exists>b. map_of (files t) p' = Some (File b))"
        using Cons.prems(3) p' m by simp
      then obtain d' b' where "syncDst dstDir srcDir p' = Some d'"
        "settled (files t) d'" "map_of (files t) p' = Some (File b')" by blast
      then show "(\<exists>d'. syncDst dstDir srcDir p' = Some d' \<and> settled (files t1) d') \<and>
            (\<exists>b'. map_of (files t1) p' = Some (File b'))"
        using settled_update [OF _ sd] same p' by (auto simp: f1)
    qed
    from Cons.IH [OF ap un hyp] obtain t' where
      run: "forEach (syncStep E dstDir srcDir) ps t1 = (None, t')"
      and look: "\<forall>q. map_of (files t') q =
                    (case lastWrite dstDir srcDir (files t1) ps q of
                       Some b \<Rightarrow> Some (File b) | None \<Rightarrow> map_of (files t1) q)"
      and keys: "map fst (files t') = map fst (files t1)"
      by blast
    have lw: "\<And>q. lastWrite dstDir srcDir (files t1) ps q = lastWrite dstDir srcDir (files t) ps q"
      by (rule lastWrite_cong) (rule same)
    have cont: "content (files t) p = b" using src by (simp add: content_def)
    have "\<forall>q. map_of (files t') q =
                    (case lastWrite dstDir srcDir (files t) (p # ps) q of
                       Some b \<Rightarrow> Some (File b) | None \<Rightarrow> map_of (files t) q)"
    proof
      fix q
      have l: "map_of (files t') q =
          (case lastWrite dstDir srcDir (files t) ps q of
             Some b \<Rightarrow> Some (File b) | None \<Rightarrow> map_of (files t1) q)"
        using look lw by simp
      show "map_of (files t') q =
                    (case lastWrite dstDir srcDir (files t) (p # ps) q of
                       Some b \<Rightarrow> Some (File b) | None \<Rightarrow> map_of (files t) q)"
      proof (cases "lastWrite dstDir srcDir (files t) ps q")
        case (Some c)
        then show ?thesis using l by simp
      next
        case None
        have m1: "map_of (files t1) q = (if q = d then Some (File b) else map_of (files t) q)"
          by (simp add: f1 update_conv')
        have "lastWrite dstDir srcDir (files t) (p # ps) q = (if q = d then Some b else None)"
          using None True d cont by auto
        then show ?thesis using l None m1 by simp
      qed
    qed
    moreover have "map fst (files t') = map fst (files t)"
      using keys sd by (auto simp: f1 settled_def update_existing_keys)
    moreover have "forEach (syncStep E dstDir srcDir) (p # ps) t = (None, t')"
      using step run by simp
    ultimately show ?thesis by blast
  qed
qed

lemma staged_walk:
  "Walk ''/r/tmp1'' (files stagedWorld) =
     [''/r/tmp1'', ''/r/tmp1/x'', ''/r/tmp1/x/a.go'', ''/r/tmp1/x/a.meta'', ''/r/tmp1/x/notes.txt'']"
  by code_simp

lemma staged_apply: "fst (syncOutput exampleEnv ''/r'' ''/r/tmp1'' stagedWorld) = None"
  by code_simp

lemma staged_apart:
  "\<forall>p \<in> set (Walk ''/r/tmp1'' (files stagedWorld)).
     strings_HasSuffix p ''.go'' \<or> strings_HasSuffix p ''.meta'' \<longrightarrow>
     (\<forall>rel. filepath_Rel ''/r/tmp1'' p = Inr rel \<longrightarrow> \<not> isUnder ''/r/tmp1'' (filepath_Join ''/r'' rel))"
proof -
  have rels:
    "filepath_Rel ''/r/tmp1'' ''/r/tmp1'' = Inr ''.''"
    "filepath_Rel ''/r/tmp1'' ''/r/tmp1/x'' = Inr ''x''"
    "filepath_Rel ''/r/tmp1'' ''/r/tmp1/x/a.go'' = Inr ''x/a.go''"
    "filepath_Rel ''/r/tmp1'' ''/r/tmp1/x/a.meta'' = Inr ''x/a.meta''"
    "filepath_Rel ''/r/tmp1'' ''/r/tmp1/x/notes.txt'' = Inr ''x/notes.txt''"
    by code_simp+
  have outside:
    "\<not> isUnder ''/r/tmp1'' (filepath_Join ''/r'' ''.'')"
    "\<not> isUnder ''/r/tmp1'' (filepath_Join ''/r'' ''x'')"
    "\<not> isUnder ''/r/tmp1'' (filepath_Join ''/r'' ''x/a.go'')"
    "\<not> isUnder ''/r/tmp1'' (filepath_Join ''/r'' ''x/a.meta'')"
    "\<not> isUnder ''/r/tmp1'' (filepath_Join ''/r'' ''x/notes.txt'')"
    by code_simp+
  show ?thesis unfolding staged_walk using rels outside by simp
qed

text \<open>
  C6, as the code has it: applying a staged tree a second time, right after a first application that
  completed, completes too, leaves every path of the file system with the content (and
  the entries in the order) that the first application left, and prints the same
  relative paths as the first one, provided that no staged path with the suffix
  \<^verbatim>\<open>.go\<close> or \<^verbatim>\<open>.meta\<close> has its destination in the staging directory. (The staging
  directory is created inside the destination root, so a staged relative path that
  begins with the staging directory's own name is copied into the staging directory,
  and the second application then finds more staged files than the first.)
\<close>

theorem apply_twice_same:
  assumes "run E"
    and "syncOutput E dstDir srcDir w = (None, w1)"
    and "\<forall>p \<in> set (Walk srcDir (files w)).
           strings_HasSuffix p ''.go'' \<or> strings_HasSuffix p ''.meta'' \<longrightarrow>
           (\<forall>rel. filepath_Rel srcDir p = Inr rel \<longrightarrow> \<not> isUnder srcDir (filepath_Join dstDir rel))"
  shows "\<exists>w2. syncOutput E dstDir srcDir w1 = (None, w2) \<and>
           map_of (files w2) = map_of (files w1) \<and>
           map fst (files w2) = map fst (files w1) \<and>
           stdout w1 = stdout w @ syncReports srcDir (Walk srcDir (files w)) \<and>
           stdout w2 = stdout w1 @ syncReports srcDir (Walk srcDir (files w))"
proof -
  define ps where "ps = Walk srcDir (files w)"
  have pass1: "forEach (syncStep E dstDir srcDir) ps w = (None, w1)"
    using assms(2) by (simp add: syncOutput_def ps_def)
  have ap: "apart dstDir srcDir ps"
    using assms(3) by (simp add: apart_def ps_def syncMatch_def)
  have un: "\<forall>p \<in> set ps. isUnder srcDir p" using Walk_under by (auto simp: ps_def)
  have frame: "sameUnder srcDir (files w) (files w1)" using pass_frame [OF assms(1) ap pass1] .
  have walk2: "Walk srcDir (files w1) = ps" using Walk_sameUnder [OF frame] by (simp add: ps_def)
  have same: "\<forall>p \<in> set ps. map_of (files w1) p = map_of (files w) p"
    using frame un by (simp add: sameUnder_def)
  have reads: "\<forall>p \<in> set ps. syncMatch p \<longrightarrow> (\<exists>b. map_of (files w1) p = Some (File b))"
    using pass_reads [OF assms(1) ap un pass1] same by simp
  have hyp: "\<forall>p \<in> set ps. syncMatch p \<longrightarrow>
            (\<exists>d. syncDst dstDir srcDir p = Some d \<and> settled (files w1) d) \<and>
            (\<exists>b. map_of (files w1) p = Some (File b))"
    using pass_settles [OF assms(1) pass1] reads by blast
  from pass_replay [OF assms(1) ap un hyp] obtain w2 where
    pass2: "forEach (syncStep E dstDir srcDir) ps w1 = (None, w2)"
    and look: "\<forall>q. map_of (files w2) q =
                    (case lastWrite dstDir srcDir (files w1) ps q of
                       Some b \<Rightarrow> Some (File b) | None \<Rightarrow> map_of (files w1) q)"
    and keys: "map fst (files w2) = map fst (files w1)"
    by blast
  have "map_of (files w2) = map_of (files w1)"
  proof
    fix q
    have lw: "lastWrite dstDir srcDir (files w1) ps q = lastWrite dstDir srcDir (files w) ps q"
      by (rule lastWrite_cong) (rule same)
    show "map_of (files w2) q = map_of (files w1) q"
    proof (cases "lastWrite dstDir srcDir (files w) ps q")
      case None
      then show ?thesis using look lw by simp
    next
      case (Some b)
      from pass_last_write [OF assms(1) ap un pass1 Some] show ?thesis using look lw Some by simp
    qed
  qed
  moreover have "syncOutput E dstDir srcDir w1 = (None, w2)"
    using pass2 walk2 by (simp add: syncOutput_def)
  moreover have "stdout w1 = stdout w @ syncReports srcDir ps"
    using pass_reports [OF assms(1) pass1] by simp
  moreover have "stdout w2 = stdout w1 @ syncReports srcDir ps"
    using pass_reports [OF assms(1) pass2] by simp
  ultimately show ?thesis using keys by (auto simp: ps_def)
qed

theorem apply_twice_same_witness:
  "fst (syncOutput exampleEnv ''/r'' ''/r/tmp1''
          (snd (syncOutput exampleEnv ''/r'' ''/r/tmp1'' stagedWorld))) = None \<and>
   map_of (files (snd (syncOutput exampleEnv ''/r'' ''/r/tmp1''
          (snd (syncOutput exampleEnv ''/r'' ''/r/tmp1'' stagedWorld))))) =
   map_of (files (snd (syncOutput exampleEnv ''/r'' ''/r/tmp1'' stagedWorld))) \<and>
   stdout (snd (syncOutput exampleEnv ''/r'' ''/r/tmp1'' stagedWorld)) = [''# x/a.go'', ''# x/a.meta''] \<and>
   stdout (snd (syncOutput exampleEnv ''/r'' ''/r/tmp1''
          (snd (syncOutput exampleEnv ''/r'' ''/r/tmp1'' stagedWorld)))) =
     [''# x/a.go'', ''# x/a.meta'', ''# x/a.go'', ''# x/a.meta'']"
proof -
  define w1 where "w1 = snd (syncOutput exampleEnv ''/r'' ''/r/tmp1'' stagedWorld)"
  have r: "run exampleEnv" by (simp add: exampleEnv_def)
  have first: "syncOutput exampleEnv ''/r'' ''/r/tmp1'' stagedWorld = (None, w1)"
    unfolding w1_def using staged_apply by (metis prod.collapse)
  have reports: "syncReports ''/r/tmp1'' (Walk ''/r/tmp1'' (files stagedWorld)) =
      [''# x/a.go'', ''# x/a.meta'']"
    unfolding staged_walk by code_simp
  have out0: "stdout stagedWorld = []" by (simp add: stagedWorld_def)
  from apply_twice_same [OF r first staged_apart] obtain w2 where
    "syncOutput exampleEnv ''/r'' ''/r/tmp1'' w1 = (None, w2)"
    "map_of (files w2) = map_of (files w1)"
    "stdout w1 = stdout stagedWorld @ syncReports ''/r/tmp1'' (Walk ''/r/tmp1'' (files stagedWorld))"
    "stdout w2 = stdout w1 @ syncReports ''/r/tmp1'' (Walk ''/r/tmp1'' (files stagedWorld))"
    by blast
  then show ?thesis unfolding w1_def [symmetric] by (simp add: reports out0)
qed

text \<open>
  Against C6 as it is worded, without the proviso: the staging directory \<^verbatim>\<open>/r/tmp1\<close> holds \<^verbatim>\<open>tmp1/a.go\<close>. The first
  application copies it to \<^verbatim>\<open>/r/tmp1/a.go\<close>, in the staging directory; the second one
  finds that file too, reports three paths where the first reported one, and creates
  \<^verbatim>\<open>/r/a.go\<close>, which the first left absent.
\<close>

theorem apply_twice_counterexample:
  "run exampleEnv \<and>
   fst (syncOutput exampleEnv ''/r'' ''/r/tmp1'' nestedWorld) = None \<and>
   fst (syncOutput exampleEnv ''/r'' ''/r/tmp1''
          (snd (syncOutput exampleEnv ''/r'' ''/r/tmp1'' nestedWorld))) = None \<and>
   stdout (snd (syncOutput exampleEnv ''/r'' ''/r/tmp1'' nestedWorld)) = [''# tmp1/a.go''] \<and>
   stdout (snd (syncOutput exampleEnv ''/r'' ''/r/tmp1''
          (snd (syncOutput exampleEnv ''/r'' ''/r/tmp1'' nestedWorld)))) =
     [''# tmp1/a.go'', ''# a.go'', ''# tmp1/a.go''] \<and>
   map_of (files (snd (syncOutput exampleEnv ''/r'' ''/r/tmp1'' nestedWorld))) ''/r/a.go'' = None \<and>
   map_of (files (snd (syncOutput exampleEnv ''/r'' ''/r/tmp1''
          (snd (syncOutput exampleEnv ''/r'' ''/r/tmp1'' nestedWorld))))) ''/r/a.go'' =
     Some (File ''X'')"
  by code_simp


subsection \<open>What changes the destination tree\<close>











































end
